theory Spec2Isabelle
  imports Complex_Main "HOL-Library.Product_Lexorder" "HOL-Library.List_Lexorder"
    "HOL-Library.Char_ord" "HOL-Library.Multiset"
begin

section \<open>Data model\<close>

text \<open>
  The two tables of \<^verbatim>\<open>config/database.js\<close> (the sql.js database that the reminder
  scheduler uses). A row is a record, a table the list of its rows in insertion order.
  Columns the reminder logic never reads (\<^verbatim>\<open>password_hash\<close>, \<^verbatim>\<open>created_at\<close>) are left
  out. The column \<^verbatim>\<open>id\<close> is called \<open>e_id\<close> / \<open>u_id\<close>, since \<open>id\<close> is the identity
  function of HOL.

  The columns \<^verbatim>\<open>due_date\<close> and \<^verbatim>\<open>reminder_date\<close> are declared \<^verbatim>\<open>DATE\<close>, which gives them
  numeric affinity and no date type: the database keeps the text it is given, or the number
  when the text is a numeric literal. The routes store the string of the request as it is
  (validated by \<^verbatim>\<open>isISO8601\<close>, not normalised), and the same value comes back to JavaScript
  as a string or a number. Values are compared as SQLite compares them: a number is less
  than any text, numbers by value, text byte by byte.
\<close>

datatype sql_value = Number int | Text string

fun sql_le :: "sql_value \<Rightarrow> sql_value \<Rightarrow> bool" where
  "sql_le (Number a) (Number b) = (a \<le> b)"
| "sql_le (Number a) (Text t) = True"
| "sql_le (Text s) (Number b) = False"
| "sql_le (Text s) (Text t) = (s \<le> t)"

instantiation sql_value :: linorder
begin

definition less_eq_sql_value :: "sql_value \<Rightarrow> sql_value \<Rightarrow> bool" where
  "less_eq_sql_value v w = sql_le v w"

definition less_sql_value :: "sql_value \<Rightarrow> sql_value \<Rightarrow> bool" where
  "less_sql_value v w = (sql_le v w \<and> \<not> sql_le w v)"

instance
proof
  fix x y z :: sql_value
  show "(x < y) = (x \<le> y \<and> \<not> y \<le> x)"
    by (simp add: less_eq_sql_value_def less_sql_value_def)
  show "x \<le> x"
    by (cases x) (simp_all add: less_eq_sql_value_def)
  show "x \<le> y \<Longrightarrow> y \<le> z \<Longrightarrow> x \<le> z"
    by (cases x; cases y; cases z) (auto simp: less_eq_sql_value_def)
  show "x \<le> y \<Longrightarrow> y \<le> x \<Longrightarrow> x = y"
    by (cases x; cases y) (auto simp: less_eq_sql_value_def)
  show "x \<le> y \<or> y \<le> x"
    by (cases x; cases y) (auto simp: less_eq_sql_value_def)
qed

end

text \<open>
  Numeric affinity on a text parameter: a decimal integer literal becomes a number, any
  other text stays as it is. (No string that passes \<^verbatim>\<open>isISO8601\<close> is a literal with a
  fraction or an exponent.)
\<close>

definition digit_of :: "char \<Rightarrow> nat option" where
  "digit_of c =
     (let n = (of_char c :: nat) in if 48 \<le> n \<and> n \<le> 57 then Some (n - 48) else None)"

fun number_from :: "nat \<Rightarrow> string \<Rightarrow> nat option" where
  "number_from acc [] = Some acc"
| "number_from acc (c # cs) =
     (case digit_of c of None \<Rightarrow> None | Some d \<Rightarrow> number_from (10 * acc + d) cs)"

definition number_of :: "string \<Rightarrow> nat option" where
  "number_of s = (if s = [] then None else number_from 0 s)"

definition integer_literal :: "string \<Rightarrow> int option" where
  "integer_literal s =
     (case s of
        [] \<Rightarrow> None
      | c # cs \<Rightarrow>
          if c = CHR ''-'' then map_option (\<lambda>n. - int n) (number_of cs)
          else if c = CHR ''+'' then map_option int (number_of cs)
          else map_option int (number_of s))"

definition affinity :: "string \<Rightarrow> sql_value" where
  "affinity s = (case integer_literal s of Some n \<Rightarrow> Number n | None \<Rightarrow> Text s)"

record user =
  u_id :: nat
  u_name :: string
  u_email :: string

record expense =
  e_id :: nat
  user_id :: nat
  expense_name :: string
  amount :: rat
  category :: string
  due_date :: sql_value
  reminder_date :: sql_value
  recurring :: string
  email_sent :: int
  paid :: "int option"
  paid_at :: "string option"

text \<open>
  The store is the in-memory database: both tables, the \<^verbatim>\<open>AUTOINCREMENT\<close> counter of the
  expenses table and the default of the column \<^verbatim>\<open>paid\<close>, whose declaration is not part of
  the sources (an \<^verbatim>\<open>INSERT\<close> that does not name the column stores this default;
  \<^verbatim>\<open>paid_at\<close> is null until an expense is marked paid). All queries read the in-memory
  database; the database file is only written.
\<close>

record store =
  users :: "user list"
  expenses :: "expense list"
  seq :: nat
  paid_default :: "int option"

text \<open>A row of the sweep's query: expense columns joined with the owner's name and email.\<close>

record reminder =
  r_id :: nat
  r_expense_name :: string
  r_amount :: rat
  r_category :: string
  r_due_date :: sql_value
  r_reminder_date :: sql_value
  r_recurring :: string
  r_user_name :: string
  r_user_email :: string

section \<open>The process and its environment\<close>

text \<open>
  A time value of JavaScript, kept as its UTC fields: year, month (from 0), day of the
  month, and the milliseconds since midnight. A JavaScript computation either throws an
  error (its message) or returns.
\<close>

type_synonym civil = "int \<times> nat \<times> nat"

type_synonym js_time = "civil \<times> nat"

datatype 'a js_result = Throws string | Returns 'a

datatype statement = UPDATE | INSERT

text \<open>
  What the code takes from its environment and the sources do not fix:
  \<^item> the time zone of the process, as the offset in milliseconds of local time from UTC at a
    UTC instant and at a local time (\<^verbatim>\<open>LocalTZA\<close> of ECMAScript; the \<^verbatim>\<open>timezone\<close> option of
    the cron job sets the schedule, not the zone of \<^verbatim>\<open>Date\<close>);
  \<^item> what \<^verbatim>\<open>new Date(s)\<close> gives for a string that is not of the form
    \<^verbatim>\<open>YYYY-MM-DD\<close> (\<open>None\<close> is the Invalid Date);
  \<^item> the file system: \<open>writeFileSync_error k st\<close> is the error that \<^verbatim>\<open>fs.writeFileSync\<close>
    throws in \<^verbatim>\<open>saveDatabase\<close> after the statement \<open>st\<close> of the \<open>k\<close>-th item of a sweep, if
    it throws.
\<close>

record process_env =
  LocalTZA_utc :: "js_time \<Rightarrow> int"
  LocalTZA_local :: "js_time \<Rightarrow> int"
  Date_other :: "string \<Rightarrow> js_time option"
  writeFileSync_error :: "nat \<Rightarrow> statement \<Rightarrow> string option"

section \<open>Calendar dates as JavaScript computes them\<close>

definition leap_year :: "int \<Rightarrow> bool" where
  "leap_year y \<longleftrightarrow> y mod 4 = 0 \<and> (y mod 100 \<noteq> 0 \<or> y mod 400 = 0)"

text \<open>Days of a month, the month counted from 0 as \<^verbatim>\<open>getMonth()\<close> does.\<close>

definition days_in_month :: "int \<Rightarrow> nat \<Rightarrow> nat" where
  "days_in_month y m =
     (if m = 1 then (if leap_year y then 29 else 28)
      else if m = 3 \<or> m = 5 \<or> m = 8 \<or> m = 10 then 30 else 31)"

text \<open>
  \<^verbatim>\<open>MakeDay\<close> of ECMAScript for a day of the month \<open>d \<ge> 1\<close>: a month past December is
  carried into the year, a day past the end of the month into the following months.
\<close>

function carry_days :: "int \<Rightarrow> nat \<Rightarrow> nat \<Rightarrow> civil" where
  "carry_days y m d =
     (if days_in_month y m < d
      then (if m = 11 then carry_days (y + 1) 0 (d - days_in_month y m)
            else carry_days y (Suc m) (d - days_in_month y m))
      else (y, m, d))"
  by pat_completeness auto
termination
  by (relation "measure (\<lambda>(y, m, d). d)") (auto simp: days_in_month_def)

definition MakeDay :: "int \<Rightarrow> nat \<Rightarrow> nat \<Rightarrow> civil" where
  "MakeDay y m d = carry_days (y + int (m div 12)) (m mod 12) d"

definition next_day :: "civil \<Rightarrow> civil" where
  "next_day c = (case c of (y, m, d) \<Rightarrow>
     if d < days_in_month y m then (y, m, Suc d)
     else if m = 11 then (y + 1, 0, 1) else (y, Suc m, 1))"

definition prev_day :: "civil \<Rightarrow> civil" where
  "prev_day c = (case c of (y, m, d) \<Rightarrow>
     if 1 < d then (y, m, d - 1)
     else if m = 0 then (y - 1, 11, 31) else (y, m - 1, days_in_month y (m - 1)))"

definition add_days :: "civil \<Rightarrow> int \<Rightarrow> civil" where
  "add_days c n = (if 0 \<le> n then (next_day ^^ nat n) c else (prev_day ^^ nat (- n)) c)"

text \<open>A time value moved by a number of milliseconds.\<close>

definition shift :: "js_time \<Rightarrow> int \<Rightarrow> js_time" where
  "shift t delta = (case t of (c, ms) \<Rightarrow>
     (add_days c ((int ms + delta) div 86400000), nat ((int ms + delta) mod 86400000)))"

text \<open>\<^verbatim>\<open>LocalTime(t)\<close> and \<^verbatim>\<open>UTC(t)\<close> of ECMAScript.\<close>

definition LocalTime :: "process_env \<Rightarrow> js_time \<Rightarrow> js_time" where
  "LocalTime env t = shift t (LocalTZA_utc env t)"

definition UTC :: "process_env \<Rightarrow> js_time \<Rightarrow> js_time" where
  "UTC env t = shift t (- LocalTZA_local env t)"

text \<open>
  A string of the form \<^verbatim>\<open>YYYY-MM-DD\<close> with a month from 01 to 12 and a day from 01 to 31.
  V8 reads such a string as midnight UTC of that day and carries a day that the month does
  not have into the next month.
\<close>

definition parse_date_only :: "string \<Rightarrow> civil option" where
  "parse_date_only s =
     (if length s = 10 \<and> s ! 4 = CHR ''-'' \<and> s ! 7 = CHR ''-''
      then (case number_of (take 4 s) of
              None \<Rightarrow> None
            | Some y \<Rightarrow>
                (case number_of (take 2 (drop 5 s)) of
                   None \<Rightarrow> None
                 | Some m \<Rightarrow>
                     (case number_of (drop 8 s) of
                        None \<Rightarrow> None
                      | Some d \<Rightarrow>
                          if 1 \<le> m \<and> m \<le> 12 \<and> 1 \<le> d \<and> d \<le> 31
                          then Some (MakeDay (int y) (m - 1) d) else None)))
      else None)"

text \<open>
  \<^verbatim>\<open>new Date(v)\<close> for a string of a request or a value of a row; \<open>None\<close> is the
  Invalid Date. A number is a time value, the milliseconds since 1 January 1970 UTC, of
  at most 8.64e15 in absolute value.
\<close>

definition new_Date :: "process_env \<Rightarrow> sql_value \<Rightarrow> js_time option" where
  "new_Date env v =
     (case v of
        Number n \<Rightarrow>
          if \<bar>n\<bar> \<le> 8640000000000000
          then Some (add_days (1970, 0, 1) (n div 86400000), nat (n mod 86400000))
          else None
      | Text s \<Rightarrow>
          (case parse_date_only s of Some c \<Rightarrow> Some (c, 0) | None \<Rightarrow> Date_other env s))"

definition getMonth :: "process_env \<Rightarrow> js_time \<Rightarrow> nat" where
  "getMonth env t = (case LocalTime env t of ((y, m, d), ms) \<Rightarrow> m)"

text \<open>\<^verbatim>\<open>setMonth(m)\<close>: the month of the local fields is replaced, day and time of day stay.\<close>

definition setMonth :: "process_env \<Rightarrow> nat \<Rightarrow> js_time \<Rightarrow> js_time" where
  "setMonth env m' t = (case LocalTime env t of ((y, m, d), ms) \<Rightarrow> UTC env (MakeDay y m' d, ms))"

text \<open>
  \<^verbatim>\<open>toISOString().split('T')[0]\<close>: the UTC date, the year with four digits, or with a sign
  and six digits outside 0 to 9999. On the Invalid Date \<^verbatim>\<open>toISOString\<close> throws a
  \<^verbatim>\<open>RangeError\<close>, which is the value \<open>None\<close>.
\<close>

definition digit_char :: "nat \<Rightarrow> char" where
  "digit_char n = ''0123456789'' ! (n mod 10)"

definition digits2 :: "nat \<Rightarrow> string" where
  "digits2 n = [digit_char (n div 10), digit_char n]"

definition digits4 :: "nat \<Rightarrow> string" where
  "digits4 n = [digit_char (n div 1000), digit_char (n div 100), digit_char (n div 10),
     digit_char n]"

definition digits6 :: "nat \<Rightarrow> string" where
  "digits6 n = [digit_char (n div 100000), digit_char (n div 10000)] @ digits4 n"

definition iso_date :: "civil \<Rightarrow> string" where
  "iso_date c = (case c of (y, m, d) \<Rightarrow>
     (if 0 \<le> y \<and> y \<le> 9999 then digits4 (nat y)
      else (if y < 0 then ''-'' else ''+'') @ digits6 (nat \<bar>y\<bar>))
     @ ''-'' @ digits2 (Suc m) @ ''-'' @ digits2 d)"

definition toISOString_date :: "js_time option \<Rightarrow> string option" where
  "toISOString_date t = (case t of None \<Rightarrow> None | Some (c, ms) \<Rightarrow> Some (iso_date c))"

text \<open>
  The date arithmetic of \<^verbatim>\<open>createNextRecurringExpense\<close>:
  \<^verbatim>\<open>const next = new Date(new Date(v)); next.setMonth(next.getMonth() + 1);
  next.toISOString().split('T')[0]\<close>.
\<close>

definition next_month_date :: "process_env \<Rightarrow> sql_value \<Rightarrow> string option" where
  "next_month_date env v =
     toISOString_date (map_option (\<lambda>t. setMonth env (getMonth env t + 1) t) (new_Date env v))"

text \<open>
  The spec's words for the same step, for comparison: one calendar month later with the
  day of the month preserved, clamped to the last day of the target month. Here a date is
  year, month (from 0) and day.
\<close>

definition add_month_clamped :: "civil \<Rightarrow> civil" where
  "add_month_clamped c = (case c of (y, m, d) \<Rightarrow>
     (let y' = (if m = 11 then y + 1 else y); m' = (if m = 11 then 0 else Suc m)
      in (y', m', min d (days_in_month y' m'))))"

section \<open>The database helpers\<close>

text \<open>
  \<^verbatim>\<open>all\<close>, \<^verbatim>\<open>get\<close> and \<^verbatim>\<open>run\<close> of \<^verbatim>\<open>config/database.js\<close>. The statements the code issues
  are well-formed, and each is a function on the store. \<^verbatim>\<open>run\<close> executes its statement
  against the in-memory database and then writes the database file (\<^verbatim>\<open>saveDatabase\<close>);
  when that write throws, the statement has already taken effect in memory.
  \<^verbatim>\<open>INTEGER PRIMARY KEY AUTOINCREMENT\<close> gives a new row an id one larger than the largest id
  the table ever held.
\<close>

definition run :: "(store \<Rightarrow> store) \<Rightarrow> string option \<Rightarrow> store \<Rightarrow> store \<times> unit js_result" where
  "run stmt write_error s =
     (stmt s, case write_error of None \<Rightarrow> Returns () | Some msg \<Rightarrow> Throws msg)"

definition max_rowid :: "expense list \<Rightarrow> nat" where
  "max_rowid es = foldr max (map e_id es) 0"

definition last_rowid :: "store \<Rightarrow> nat" where
  "last_rowid s = max (seq s) (max_rowid (expenses s))"

text \<open>\<^verbatim>\<open>INSERT INTO expenses (user_id, expense_name, amount, category, due_date,
  reminder_date, recurring, email_sent) VALUES (...)\<close>, the dates given as strings.\<close>

definition insert_expense ::
  "nat \<Rightarrow> string \<Rightarrow> rat \<Rightarrow> string \<Rightarrow> string \<Rightarrow> string \<Rightarrow> string \<Rightarrow> int \<Rightarrow> store \<Rightarrow> store" where
  "insert_expense uid nm amt cat due rem rec sent s =
     (let n = Suc (last_rowid s)
      in s\<lparr>expenses := expenses s @
             [\<lparr>e_id = n, user_id = uid, expense_name = nm, amount = amt, category = cat,
               due_date = affinity due, reminder_date = affinity rem, recurring = rec,
               email_sent = sent, paid = paid_default s, paid_at = None\<rparr>],
           seq := n\<rparr>)"

text \<open>\<^verbatim>\<open>UPDATE expenses SET email_sent = 1 WHERE id = ?\<close>\<close>

definition mark_sent :: "nat \<Rightarrow> store \<Rightarrow> store" where
  "mark_sent i s =
     s\<lparr>expenses := map (\<lambda>e. if e_id e = i then e\<lparr>email_sent := 1\<rparr> else e) (expenses s)\<rparr>"

text \<open>\<^verbatim>\<open>get('SELECT user_id FROM expenses WHERE id = ?')\<close>: the first row, or null.\<close>

definition get_user_id :: "nat \<Rightarrow> store \<Rightarrow> nat option" where
  "get_user_id i s = map_option user_id (find (\<lambda>e. e_id e = i) (expenses s))"

section \<open>The email service\<close>

text \<open>The argument of \<^verbatim>\<open>sendReminderEmail\<close>.\<close>

record reminder_mail =
  m_to :: string
  m_userName :: string
  m_expenseName :: string
  m_amount :: rat
  m_dueDate :: sql_value
  m_category :: string

text \<open>
  What \<^verbatim>\<open>resend.emails.send\<close> resolves to: \<^verbatim>\<open>{ data, error }\<close>, here \<^verbatim>\<open>data.id\<close> and
  \<^verbatim>\<open>error.message\<close>, each \<open>None\<close> when the object is null. The client is the provider's
  answer to a mail (the rendering of subject and body is part of it); the module variable
  \<^verbatim>\<open>resend\<close> is \<open>None\<close> until \<^verbatim>\<open>initializeTransporter\<close> has found an API key. The
  formatting of amount and date before the \<^verbatim>\<open>try\<close> block does not throw on a number and
  a string.
\<close>

datatype send_response = Response (data_id: "string option") (error_message: "string option")

type_synonym resend_client = "reminder_mail \<Rightarrow> send_response js_result"

record send_result =
  success :: bool
  messageId :: "string option"
  error :: "string option"

definition try_catch :: "'a js_result \<Rightarrow> (string \<Rightarrow> 'a js_result) \<Rightarrow> 'a js_result" where
  "try_catch body handler = (case body of Throws msg \<Rightarrow> handler msg | Returns v \<Rightarrow> Returns v)"

text \<open>The \<^verbatim>\<open>TypeError\<close> of reading \<^verbatim>\<open>data.id\<close> when \<^verbatim>\<open>data\<close> is null.\<close>

definition null_id_message :: string where
  "null_id_message = ''Cannot read properties of null (reading 'id')''"

definition sendReminderEmail :: "resend_client option \<Rightarrow> reminder_mail \<Rightarrow> send_result js_result" where
  "sendReminderEmail resend mail =
     (case resend of
        None \<Rightarrow> Returns \<lparr>success = False, messageId = None,
                         error = Some ''Email service not configured''\<rparr>
      | Some client \<Rightarrow>
          try_catch
            (case client mail of
               Throws msg \<Rightarrow> Throws msg
             | Returns resp \<Rightarrow>
                 (case error_message resp of
                    Some msg \<Rightarrow> Returns \<lparr>success = False, messageId = None, error = Some msg\<rparr>
                  | None \<Rightarrow>
                      (case data_id resp of
                         None \<Rightarrow> Throws null_id_message
                       | Some i \<Rightarrow> Returns \<lparr>success = True, messageId = Some i, error = None\<rparr>)))
            (\<lambda>msg. Returns \<lparr>success = False, messageId = None, error = Some msg\<rparr>))"

section \<open>The reminder scheduler\<close>

text \<open>
  The query of \<^verbatim>\<open>processReminders\<close>:
  \<^verbatim>\<open>SELECT ... FROM expenses e JOIN users u ON e.user_id = u.id
  WHERE e.reminder_date <= ? AND e.email_sent = 0 ORDER BY e.due_date ASC\<close>,
  the parameter being the string \<open>today\<close>, on which the comparison with the column puts the
  column's affinity. Rows with equal \<^verbatim>\<open>due_date\<close> stay in table order.
\<close>

definition join_row :: "expense \<Rightarrow> user \<Rightarrow> reminder" where
  "join_row e u =
     \<lparr>r_id = e_id e, r_expense_name = expense_name e, r_amount = amount e,
      r_category = category e, r_due_date = due_date e, r_reminder_date = reminder_date e,
      r_recurring = recurring e, r_user_name = u_name u, r_user_email = u_email u\<rparr>"

definition owners :: "store \<Rightarrow> expense \<Rightarrow> user list" where
  "owners s e = filter (\<lambda>u. user_id e = u_id u) (users s)"

definition pendingReminders :: "string \<Rightarrow> store \<Rightarrow> reminder list" where
  "pendingReminders today s =
     sort_key r_due_date
       (concat (map (\<lambda>e. map (join_row e) (owners s e))
          (filter (\<lambda>e. reminder_date e \<le> affinity today \<and> email_sent e = 0) (expenses s))))"

text \<open>
  \<^verbatim>\<open>createNextRecurringExpense\<close> for the \<open>k\<close>-th item of a sweep. Every exception inside it
  (the \<^verbatim>\<open>TypeError\<close> of reading \<^verbatim>\<open>user_id\<close> of null, the \<^verbatim>\<open>RangeError\<close> of an Invalid
  Date, the error of writing the database file after the \<^verbatim>\<open>INSERT\<close>) is caught and logged
  there. The first two leave the store as it is; when the write of the file throws, the
  row is in the in-memory database already.
\<close>

definition createNextRecurringExpense :: "process_env \<Rightarrow> nat \<Rightarrow> reminder \<Rightarrow> store \<Rightarrow> store" where
  "createNextRecurringExpense env k expense s =
     (case get_user_id (r_id expense) s of
        None \<Rightarrow> s
      | Some uid \<Rightarrow>
          (case next_month_date env (r_due_date expense) of
             None \<Rightarrow> s
           | Some nextDueDate \<Rightarrow>
               (case next_month_date env (r_reminder_date expense) of
                  None \<Rightarrow> s
                | Some nextReminderDate \<Rightarrow>
                    fst (run (insert_expense uid (r_expense_name expense) (r_amount expense)
                                (r_category expense) nextDueDate nextReminderDate ''yes'' 0)
                           (writeFileSync_error env k INSERT) s))))"

text \<open>The argument of the \<^verbatim>\<open>sendReminderEmail\<close> call for a row of the query.\<close>

definition mail_of :: "reminder \<Rightarrow> reminder_mail" where
  "mail_of r =
     \<lparr>m_to = r_user_email r, m_userName = r_user_name r, m_expenseName = r_expense_name r,
      m_amount = r_amount r, m_dueDate = r_due_date r, m_category = r_category r\<rparr>"

text \<open>
  The ways the body of the loop ends for an item: the reminder was sent and marked (first
  log line), the notifier reported a failure (second log line), or the catch block was
  reached (third log line), from the awaited notifier call or from the \<^verbatim>\<open>run\<close> of the
  \<^verbatim>\<open>UPDATE\<close>.
\<close>

datatype item_outcome = Sent | SendFailed | Send_threw string | Update_threw string

text \<open>
  The notifier as the loop sees it: \<open>send k mail\<close> is what the \<open>k\<close>-th call of
  \<^verbatim>\<open>sendReminderEmail\<close> of a sweep does with \<open>mail\<close>.
\<close>

type_synonym notifier = "nat \<Rightarrow> reminder_mail \<Rightarrow> send_result js_result"

text \<open>The body of the loop for the \<open>k\<close>-th item, given what the notifier call did.\<close>

definition process_item ::
  "process_env \<Rightarrow> nat \<Rightarrow> send_result js_result \<Rightarrow> reminder \<Rightarrow> store \<Rightarrow> item_outcome \<times> store" where
  "process_item env k sent r s =
     (case sent of
        Throws msg \<Rightarrow> (Send_threw msg, s)
      | Returns result \<Rightarrow>
          if success result
          then (case run (mark_sent (r_id r)) (writeFileSync_error env k UPDATE) s of
                  (s1, Throws msg) \<Rightarrow> (Update_threw msg, s1)
                | (s1, Returns u) \<Rightarrow>
                    (Sent, if r_recurring r = ''yes''
                           then createNextRecurringExpense env k r s1 else s1))
          else (SendFailed, s))"

text \<open>
  The loop over the rows of the query (on an empty list the function returns at once, as
  the loop would). Beside the store it returns its trace: for each call of
  \<^verbatim>\<open>sendReminderEmail\<close>, in call order, the item, the argument of the call and the way the
  body of the loop ended.
\<close>

type_synonym trace = "(reminder \<times> reminder_mail \<times> item_outcome) list"

fun process_loop ::
  "process_env \<Rightarrow> notifier \<Rightarrow> nat \<Rightarrow> reminder list \<Rightarrow> store \<Rightarrow> store \<times> trace" where
  "process_loop env send k [] s = (s, [])"
| "process_loop env send k (r # rs) s =
     (case process_item env k (send k (mail_of r)) r s of
        (out, s1) \<Rightarrow>
          (case process_loop env send (Suc k) rs s1 of
             (s2, tr) \<Rightarrow> (s2, (r, mail_of r, out) # tr)))"

definition processReminders :: "process_env \<Rightarrow> string \<Rightarrow> notifier \<Rightarrow> store \<Rightarrow> store \<times> trace" where
  "processReminders env today send s = process_loop env send 0 (pendingReminders today s) s"

text \<open>The notifier calls of a trace that were made for the expense \<open>i\<close>.\<close>

definition calls_for :: "nat \<Rightarrow> trace \<Rightarrow> nat" where
  "calls_for i tr = length (filter (\<lambda>(r, mail, out). r_id r = i) tr)"

text \<open>\<open>send\<close> answers every one of its calls for the rows \<open>rs\<close> with success.\<close>

definition all_succeed :: "notifier \<Rightarrow> reminder list \<Rightarrow> bool" where
  "all_succeed send rs =
     list_all (\<lambda>k. case send k (mail_of (rs ! k)) of
                      Throws msg \<Rightarrow> False
                    | Returns result \<Rightarrow> success result)
       [0..<length rs]"

text \<open>
  The notifier that \<^verbatim>\<open>services/emailService.js\<close> provides, when the provider answers the
  \<open>k\<close>-th call as the client \<open>provider k\<close> does.
\<close>

definition email_service :: "(nat \<Rightarrow> resend_client) option \<Rightarrow> notifier" where
  "email_service resend k mail = sendReminderEmail (map_option (\<lambda>provider. provider k) resend) mail"

section \<open>The diagnostic query\<close>

text \<open>
  \<^verbatim>\<open>GET /api/pending-reminders\<close>:
  \<^verbatim>\<open>SELECT e.id, e.expense_name, e.reminder_date, e.due_date, e.email_sent, e.paid, u.email
  FROM expenses e JOIN users u ON e.user_id = u.id
  WHERE e.reminder_date <= $1 AND e.email_sent = 0 AND (e.paid = 0 OR e.paid IS NULL)
  ORDER BY e.reminder_date\<close>.
\<close>

record pending_row =
  p_id :: nat
  p_expense_name :: string
  p_reminder_date :: sql_value
  p_due_date :: sql_value
  p_email_sent :: int
  p_paid :: "int option"
  p_email :: string

definition pending_row_of :: "expense \<Rightarrow> user \<Rightarrow> pending_row" where
  "pending_row_of e u =
     \<lparr>p_id = e_id e, p_expense_name = expense_name e, p_reminder_date = reminder_date e,
      p_due_date = due_date e, p_email_sent = email_sent e, p_paid = paid e,
      p_email = u_email u\<rparr>"

definition pending_reminders :: "string \<Rightarrow> store \<Rightarrow> pending_row list" where
  "pending_reminders today s =
     sort_key p_reminder_date
       (concat (map (\<lambda>e. map (pending_row_of e) (owners s e))
          (filter (\<lambda>e. reminder_date e \<le> affinity today \<and> email_sent e = 0 \<and>
                        (paid e = Some 0 \<or> paid e = None)) (expenses s))))"

section \<open>The expense routes\<close>

text \<open>
  \<^verbatim>\<open>POST /api/expenses\<close> and \<^verbatim>\<open>PUT /api/expenses/:id\<close> of \<^verbatim>\<open>routes/expenses.js\<close>. The
  handler gets the errors that \<^verbatim>\<open>validationResult(req)\<close> reports, the id of the
  authenticated user and the body as the validators' sanitizers left it. A response other
  than success is its status with its message. The database calls of the handlers are
  taken to succeed.
\<close>

record create_body =
  c_expense_name :: string
  c_amount :: rat
  c_category :: "string option"
  c_due_date :: string
  c_reminder_date :: string
  c_recurring :: "string option"

record update_body =
  b_expense_name :: "string option"
  b_amount :: "rat option"
  b_category :: "string option"
  b_due_date :: "string option"
  b_reminder_date :: "string option"
  b_recurring :: "string option"

type_synonym http_error = "nat \<times> string"

text \<open>\<^verbatim>\<open>a > b\<close> on two \<^verbatim>\<open>Date\<close> objects; with an Invalid Date it is false.\<close>

definition date_after :: "js_time option \<Rightarrow> js_time option \<Rightarrow> bool" where
  "date_after a b = (case a of None \<Rightarrow> False
     | Some t \<Rightarrow> (case b of None \<Rightarrow> False | Some t' \<Rightarrow> t' < t))"

text \<open>\<^verbatim>\<open>v || dflt\<close> on an optional string: undefined and the empty string are falsy.\<close>

definition or_default :: "string option \<Rightarrow> string \<Rightarrow> string" where
  "or_default v dflt = (case v of None \<Rightarrow> dflt | Some x \<Rightarrow> if x = [] then dflt else x)"

definition create_expense ::
  "process_env \<Rightarrow> string list \<Rightarrow> nat \<Rightarrow> create_body \<Rightarrow> store \<Rightarrow> http_error + store" where
  "create_expense env errors uid body s =
     (if errors \<noteq> [] then Inl (400, ''Validation failed'')
      else if date_after (new_Date env (Text (c_reminder_date body)))
                (new_Date env (Text (c_due_date body)))
      then Inl (400, ''Reminder date cannot be after due date'')
      else Inr (insert_expense uid (c_expense_name body) (c_amount body)
                  (or_default (c_category body) ''Other'') (c_due_date body)
                  (c_reminder_date body) (or_default (c_recurring body) ''no'') 0 s))"

text \<open>The column assignments the update handler collects in \<^verbatim>\<open>updates\<close> / \<^verbatim>\<open>params\<close>.\<close>

datatype assignment =
  Set_expense_name string
| Set_amount rat
| Set_category string
| Set_due_date string
| Set_reminder_date string
| Set_email_sent int
| Set_recurring string

fun assign :: "expense \<Rightarrow> assignment \<Rightarrow> expense" where
  "assign e (Set_expense_name v) = e\<lparr>expense_name := v\<rparr>"
| "assign e (Set_amount v) = e\<lparr>amount := v\<rparr>"
| "assign e (Set_category v) = e\<lparr>category := v\<rparr>"
| "assign e (Set_due_date v) = e\<lparr>due_date := affinity v\<rparr>"
| "assign e (Set_reminder_date v) = e\<lparr>reminder_date := affinity v\<rparr>"
| "assign e (Set_email_sent v) = e\<lparr>email_sent := v\<rparr>"
| "assign e (Set_recurring v) = e\<lparr>recurring := v\<rparr>"

definition build_updates :: "update_body \<Rightarrow> assignment list" where
  "build_updates body =
     (case b_expense_name body of None \<Rightarrow> [] | Some v \<Rightarrow> [Set_expense_name v]) @
     (case b_amount body of None \<Rightarrow> [] | Some v \<Rightarrow> [Set_amount v]) @
     (case b_category body of None \<Rightarrow> [] | Some v \<Rightarrow> [Set_category v]) @
     (case b_due_date body of None \<Rightarrow> [] | Some v \<Rightarrow> [Set_due_date v]) @
     (case b_reminder_date body of None \<Rightarrow> []
        | Some v \<Rightarrow> [Set_reminder_date v, Set_email_sent 0]) @
     (case b_recurring body of None \<Rightarrow> [] | Some v \<Rightarrow> [Set_recurring v])"

definition update_expense ::
  "string list \<Rightarrow> nat \<Rightarrow> nat \<Rightarrow> update_body \<Rightarrow> store \<Rightarrow> http_error + store" where
  "update_expense errors uid i body s =
     (if errors \<noteq> [] then Inl (400, ''Validation failed'')
      else (case find (\<lambda>e. e_id e = i \<and> user_id e = uid) (expenses s) of
              None \<Rightarrow> Inl (404, ''Expense not found'')
            | Some existingExpense \<Rightarrow>
                (let updates = build_updates body
                 in if updates = [] then Inl (400, ''No fields to update'')
                    else Inr (s\<lparr>expenses :=
                           map (\<lambda>e. if e_id e = i \<and> user_id e = uid
                                    then foldl assign e updates else e)
                               (expenses s)\<rparr>))))"

section \<open>Consistency of the store\<close>

text \<open>
  What the schema declares: \<^verbatim>\<open>id\<close> is the primary key of both tables, and
  \<^verbatim>\<open>expenses.user_id\<close> references \<^verbatim>\<open>users(id)\<close>.
\<close>

definition wf_store :: "store \<Rightarrow> bool" where
  "wf_store s \<longleftrightarrow>
     distinct (map e_id (expenses s)) \<and> distinct (map u_id (users s)) \<and>
     list_all (\<lambda>e. list_ex (\<lambda>u. user_id e = u_id u) (users s)) (expenses s)"

section \<open>A closed form of the sweep\<close>

text \<open>
  The way the loop body ends for the \<open>k\<close>-th item depends on the notifier's answer and on
  the write of the database file after the \<^verbatim>\<open>UPDATE\<close> only; so does the trace of a sweep.
\<close>

definition outcome_of :: "process_env \<Rightarrow> nat \<Rightarrow> send_result js_result \<Rightarrow> item_outcome" where
  "outcome_of env k sent =
     (case sent of
        Throws msg \<Rightarrow> Send_threw msg
      | Returns result \<Rightarrow>
          if success result
          then (case writeFileSync_error env k UPDATE of
                  None \<Rightarrow> Sent | Some msg \<Rightarrow> Update_threw msg)
          else SendFailed)"

fun outcomes :: "process_env \<Rightarrow> notifier \<Rightarrow> nat \<Rightarrow> reminder list \<Rightarrow> trace" where
  "outcomes env send k [] = []"
| "outcomes env send k (r # rs) =
     (r, mail_of r, outcome_of env k (send k (mail_of r))) # outcomes env send (Suc k) rs"

text \<open>The outcomes after which the \<^verbatim>\<open>UPDATE\<close> has taken effect in memory.\<close>

fun marked :: "item_outcome \<Rightarrow> bool" where
  "marked Sent = True"
| "marked (Update_threw msg) = True"
| "marked SendFailed = False"
| "marked (Send_threw msg) = False"

definition marked_ids :: "trace \<Rightarrow> nat set" where
  "marked_ids tr = r_id ` fst ` {x \<in> set tr. marked (snd (snd x))}"

definition mark_all :: "nat set \<Rightarrow> expense list \<Rightarrow> expense list" where
  "mark_all S es = map (\<lambda>e. if e_id e \<in> S then e\<lparr>email_sent := 1\<rparr> else e) es"

text \<open>
  The row \<^verbatim>\<open>createNextRecurringExpense\<close> inserts for an item, given the owner the lookup
  finds, the default of \<^verbatim>\<open>paid\<close> and the id of the new row; and the rows a trace inserts,
  the ids counted on from \<open>n\<close>.
\<close>

definition successor_row ::
  "process_env \<Rightarrow> (nat \<Rightarrow> nat option) \<Rightarrow> int option \<Rightarrow> nat \<Rightarrow> reminder \<Rightarrow> expense option" where
  "successor_row env owner pd n r =
     (case owner (r_id r) of
        None \<Rightarrow> None
      | Some uid \<Rightarrow>
          (case next_month_date env (r_due_date r) of
             None \<Rightarrow> None
           | Some nextDueDate \<Rightarrow>
               (case next_month_date env (r_reminder_date r) of
                  None \<Rightarrow> None
                | Some nextReminderDate \<Rightarrow>
                    Some \<lparr>e_id = n, user_id = uid, expense_name = r_expense_name r,
                          amount = r_amount r, category = r_category r,
                          due_date = affinity nextDueDate,
                          reminder_date = affinity nextReminderDate,
                          recurring = ''yes'', email_sent = 0, paid = pd, paid_at = None\<rparr>)))"

fun new_rows ::
  "process_env \<Rightarrow> (nat \<Rightarrow> nat option) \<Rightarrow> int option \<Rightarrow> nat \<Rightarrow> trace \<Rightarrow> expense list" where
  "new_rows env owner pd n [] = []"
| "new_rows env owner pd n ((r, mail, out) # tr) =
     (if out = Sent \<and> r_recurring r = ''yes''
      then (case successor_row env owner pd (Suc n) r of
              None \<Rightarrow> new_rows env owner pd n tr
            | Some e \<Rightarrow> e # new_rows env owner pd (Suc n) tr)
      else new_rows env owner pd n tr)"

section \<open>Example data\<close>

text \<open>Concrete environments, users, expenses, stores and notifiers on which the theorems
  are instantiated. The environment \<open>utc_env\<close> is a process in UTC whose writes of the
  database file succeed; its \<open>Date_other\<close> is not consulted on dates of the form
  \<^verbatim>\<open>YYYY-MM-DD\<close>.\<close>

definition utc_env :: process_env where
  "utc_env = \<lparr>LocalTZA_utc = (\<lambda>t. 0), LocalTZA_local = (\<lambda>t. 0), Date_other = (\<lambda>v. None),
     writeFileSync_error = (\<lambda>k st. None)\<rparr>"

definition asha :: user where
  "asha = \<lparr>u_id = 1, u_name = ''Asha'', u_email = ''asha@example.com''\<rparr>"

definition rent_jan :: expense where
  "rent_jan = \<lparr>e_id = 1, user_id = 1, expense_name = ''Rent'', amount = 1000,
     category = ''Bills'', due_date = Text ''2024-01-31'', reminder_date = Text ''2024-01-28'',
     recurring = ''yes'', email_sent = 0, paid = None, paid_at = None\<rparr>"

definition jan_store :: store where
  "jan_store = \<lparr>users = [asha], expenses = [rent_jan], seq = 1, paid_default = None\<rparr>"

definition always_ok :: notifier where
  "always_ok k mail = Returns \<lparr>success = True, messageId = Some ''msg'', error = None\<rparr>"

definition mail0 :: reminder_mail where
  "mail0 = \<lparr>m_to = ''asha@example.com'', m_userName = ''Asha'', m_expenseName = ''Rent'',
     m_amount = 1000, m_dueDate = Text ''2024-03-15'', m_category = ''Bills''\<rparr>"

text \<open>Processes in zones with a fixed offset from UTC: five hours behind, five and a half
  hours ahead.\<close>

definition west_env :: process_env where
  "west_env = utc_env\<lparr>LocalTZA_utc := (\<lambda>t. - 18000000), LocalTZA_local := (\<lambda>t. - 18000000)\<rparr>"

definition east_env :: process_env where
  "east_env = utc_env\<lparr>LocalTZA_utc := (\<lambda>t. 19800000), LocalTZA_local := (\<lambda>t. 19800000)\<rparr>"


definition rent_mar :: expense where
  "rent_mar = \<lparr>e_id = 1, user_id = 1, expense_name = ''Rent'', amount = 1000,
     category = ''Bills'', due_date = Text ''2024-03-15'', reminder_date = Text ''2024-03-10'',
     recurring = ''yes'', email_sent = 1, paid = None, paid_at = None\<rparr>"

definition mar_store :: store where
  "mar_store = \<lparr>users = [asha], expenses = [rent_mar], seq = 1, paid_default = None\<rparr>"

definition no_change :: update_body where
  "no_change = \<lparr>b_expense_name = None, b_amount = None, b_category = None, b_due_date = None,
     b_reminder_date = None, b_recurring = None\<rparr>"

definition ben :: user where
  "ben = \<lparr>u_id = 2, u_name = ''Ben'', u_email = ''ben@example.com''\<rparr>"

definition rent :: expense where
  "rent = \<lparr>e_id = 1, user_id = 1, expense_name = ''Rent'', amount = 1000,
     category = ''Bills'', due_date = Text ''2024-03-15'', reminder_date = Text ''2024-03-10'',
     recurring = ''yes'', email_sent = 0, paid = None, paid_at = None\<rparr>"

definition gym :: expense where
  "gym = \<lparr>e_id = 2, user_id = 2, expense_name = ''Gym'', amount = 40,
     category = ''Health'', due_date = Text ''2024-03-12'', reminder_date = Text ''2024-03-11'',
     recurring = ''no'', email_sent = 0, paid = Some 0, paid_at = None\<rparr>"

definition loan :: expense where
  "loan = \<lparr>e_id = 3, user_id = 1, expense_name = ''Loan'', amount = 250,
     category = ''Bills'', due_date = Text ''2024-04-01'', reminder_date = Text ''2024-03-25'',
     recurring = ''no'', email_sent = 0, paid = None, paid_at = None\<rparr>"

definition films :: expense where
  "films = \<lparr>e_id = 4, user_id = 2, expense_name = ''Films'', amount = 15,
     category = ''Entertainment'', due_date = Text ''2024-03-20'',
     reminder_date = Text ''2024-03-01'', recurring = ''yes'', email_sent = 0, paid = Some 1,
     paid_at = Some ''2024-03-02T09:00:00.000Z''\<rparr>"

definition store0 :: store where
  "store0 = \<lparr>users = [asha, ben], expenses = [rent, gym, loan, films], seq = 4,
     paid_default = Some 0\<rparr>"

definition fails_first :: notifier where
  "fails_first k mail =
     (if k = 0 then Returns \<lparr>success = False, messageId = None, error = Some ''daily quota exceeded''\<rparr>
      else Returns \<lparr>success = True, messageId = Some ''msg'', error = None\<rparr>)"

definition throws_first :: notifier where
  "throws_first k mail =
     (if k = 0 then Throws ''socket hang up''
      else Returns \<lparr>success = True, messageId = Some ''msg'', error = None\<rparr>)"

text \<open>A process in UTC whose disk is full when the database file is written after the
  \<^verbatim>\<open>UPDATE\<close> of the first item of a sweep.\<close>

definition disk_full_env :: process_env where
  "disk_full_env = utc_env\<lparr>writeFileSync_error :=
     (\<lambda>k st. if k = 0 \<and> st = UPDATE then Some ''ENOSPC: no space left on device, write''
              else None)\<rparr>"

text \<open>Expenses whose reminder date was sent to the create route in other forms that
  \<^verbatim>\<open>isISO8601\<close> accepts: the basic format \<^verbatim>\<open>20240310\<close>, which the column keeps as a number,
  and a date with a time, \<^verbatim>\<open>2024-03-10T09:00:00Z\<close>.\<close>

definition water :: expense where
  "water = \<lparr>e_id = 1, user_id = 1, expense_name = ''Water'', amount = 30,
     category = ''Bills'', due_date = Text ''2024-03-15'', reminder_date = affinity ''20240310'',
     recurring = ''no'', email_sent = 0, paid = None, paid_at = None\<rparr>"

definition power :: expense where
  "power = \<lparr>e_id = 2, user_id = 1, expense_name = ''Power'', amount = 60,
     category = ''Bills'', due_date = Text ''2024-03-16'',
     reminder_date = affinity ''2024-03-10T09:00:00Z'',
     recurring = ''no'', email_sent = 0, paid = None, paid_at = None\<rparr>"

definition format_store :: store where
  "format_store = \<lparr>users = [asha], expenses = [water, power], seq = 2, paid_default = None\<rparr>"
section \<open>Properties of the sweep\<close>

subsection \<open>The trace\<close>

lemma process_item_outcome: "fst (process_item env k x r s) = outcome_of env k x"
  by (simp add: process_item_def outcome_of_def run_def split: js_result.splits option.splits)

lemma process_loop_trace: "snd (process_loop env send k rs s) = outcomes env send k rs"
proof (induction rs arbitrary: k s)
  case Nil
  show ?case by simp
next
  case (Cons r rs)
  obtain out s1 where p: "process_item env k (send k (mail_of r)) r s = (out, s1)"
    by (cases "process_item env k (send k (mail_of r)) r s")
  obtain s2 tr where l: "process_loop env send (Suc k) rs s1 = (s2, tr)"
    by (cases "process_loop env send (Suc k) rs s1")
  have "out = outcome_of env k (send k (mail_of r))"
    using process_item_outcome [of env k "send k (mail_of r)" r s] p by simp
  moreover have "tr = outcomes env send (Suc k) rs"
    using Cons.IH [of "Suc k" s1] l by simp
  ultimately show ?case using p l by simp
qed

lemma map_fst_outcomes: "map fst (outcomes env send k rs) = rs"
  by (induction rs arbitrary: k) auto

lemma length_outcomes: "length (outcomes env send k rs) = length rs"
  by (induction rs arbitrary: k) auto

lemma outcomes_nth:
  "j < length rs \<Longrightarrow>
   outcomes env send k rs ! j =
     (rs ! j, mail_of (rs ! j), outcome_of env (k + j) (send (k + j) (mail_of (rs ! j))))"
proof (induction rs arbitrary: k j)
  case Nil
  then show ?case by simp
next
  case (Cons r rs)
  then show ?case by (cases j) auto
qed

subsection \<open>Row ids and marking\<close>

lemma max_rowid_ge: "e \<in> set es \<Longrightarrow> e_id e \<le> max_rowid es"
  by (induction es) (auto simp: max_rowid_def)

lemma max_rowid_append: "max_rowid (es @ fs) = max (max_rowid es) (max_rowid fs)"
  by (induction es) (auto simp: max_rowid_def)

lemma max_rowid_mark_all: "max_rowid (mark_all S es) = max_rowid es"
  by (induction es) (auto simp: max_rowid_def mark_all_def)

lemma mark_all_empty: "mark_all {} es = es"
  by (simp add: mark_all_def)

lemma mark_all_append: "mark_all S (es @ fs) = mark_all S es @ mark_all S fs"
  by (simp add: mark_all_def)

lemma mark_all_twice: "mark_all T (mark_all S es) = mark_all (S \<union> T) es"
  by (induction es) (auto simp: mark_all_def)

lemma mark_all_fresh: "\<forall>e \<in> set es. e_id e \<notin> S \<Longrightarrow> mark_all S es = es"
  by (induction es) (auto simp: mark_all_def)

lemma expenses_mark_sent: "expenses (mark_sent i s) = mark_all {i} (expenses s)"
  by (simp add: mark_sent_def mark_all_def)

lemma last_rowid_mark_sent: "last_rowid (mark_sent i s) = last_rowid s"
  using max_rowid_mark_all [of "{i}" "expenses s"]
  by (simp add: last_rowid_def expenses_mark_sent) (simp add: mark_sent_def)

lemma find_mark_all: "map_option user_id (find (\<lambda>e. e_id e = i) (mark_all S es)) = map_option user_id (find (\<lambda>e. e_id e = i) es)"
  by (induction es) (auto simp: mark_all_def)

lemma get_user_id_mark_sent: "get_user_id i (mark_sent j s) = get_user_id i s"
  using find_mark_all [of i "{j}" "expenses s"]
  by (simp add: get_user_id_def expenses_mark_sent)

subsection \<open>One item, and the loop\<close>

lemma successor_row_id: "successor_row env owner pd n r = Some e \<Longrightarrow> e_id e = n"
  by (auto simp: successor_row_def split: option.splits)

lemma successor_row_cong:
  "f (r_id r) = g (r_id r) \<Longrightarrow> successor_row env f pd n r = successor_row env g pd n r"
  by (simp add: successor_row_def)

lemma createNext_expenses:
  "expenses (createNextRecurringExpense env k r s) =
     expenses s @ (case successor_row env (\<lambda>i. get_user_id i s) (paid_default s) (Suc (last_rowid s)) r
                   of None \<Rightarrow> [] | Some e \<Rightarrow> [e])"
  by (simp add: createNextRecurringExpense_def successor_row_def insert_expense_def Let_def
      run_def split: option.splits)

lemma createNext_frame:
  "users (createNextRecurringExpense env k r s) = users s \<and>
   paid_default (createNextRecurringExpense env k r s) = paid_default s"
  by (simp add: createNextRecurringExpense_def insert_expense_def Let_def run_def
      split: option.splits)

lemma max_rowid_single: "max_rowid [e] = e_id e"
  by (simp add: max_rowid_def)

lemma createNext_last_rowid:
  "last_rowid (createNextRecurringExpense env k r s) =
     (case successor_row env (\<lambda>i. get_user_id i s) (paid_default s) (Suc (last_rowid s)) r
      of None \<Rightarrow> last_rowid s | Some e \<Rightarrow> Suc (last_rowid s))"
  by (simp add: createNextRecurringExpense_def successor_row_def insert_expense_def Let_def
      run_def last_rowid_def max_rowid_append max_rowid_single split: option.splits)

lemma new_rows_ids: "e \<in> set (new_rows env owner pd n tr) \<Longrightarrow> n < e_id e"
proof (induction tr arbitrary: n)
  case Nil
  then show ?case by simp
next
  case (Cons x tr)
  obtain r m out where x: "x = (r, m, out)" by (cases x)
  show ?case
  proof (cases "out = Sent \<and> r_recurring r = ''yes''")
    case False
    then show ?thesis using Cons x by auto
  next
    case True
    show ?thesis
    proof (cases "successor_row env owner pd (Suc n) r")
      case None
      then show ?thesis using Cons x True by auto
    next
      case (Some e')
      then have "e = e' \<or> e \<in> set (new_rows env owner pd (Suc n) tr)"
        using Cons.prems x True by auto
      then show ?thesis
      proof
        assume "e = e'"
        then show ?thesis using successor_row_id [OF Some] by simp
      next
        assume "e \<in> set (new_rows env owner pd (Suc n) tr)"
        then have "Suc n < e_id e" by (rule Cons.IH)
        then show ?thesis by simp
      qed
    qed
  qed
qed

lemma new_rows_cong:
  "\<forall>x \<in> set tr. f (r_id (fst x)) = g (r_id (fst x)) \<Longrightarrow> new_rows env f pd n tr = new_rows env g pd n tr"
proof (induction tr arbitrary: n)
  case Nil
  show ?case by simp
next
  case (Cons x tr)
  obtain r m out where x: "x = (r, m, out)" by (cases x)
  have eq: "successor_row env f pd (Suc n) r = successor_row env g pd (Suc n) r"
    using Cons.prems x by (intro successor_row_cong) simp
  have ih: "\<And>m. new_rows env f pd m tr = new_rows env g pd m tr"
    using Cons by simp
  show ?case using x eq ih by (simp split: option.splits)
qed

lemma new_rows_max: "max_rowid (new_rows env owner pd n tr) \<le> n + length (new_rows env owner pd n tr)"
proof (induction tr arbitrary: n)
  case Nil
  show ?case by (simp add: max_rowid_def)
next
  case (Cons x tr)
  obtain r m out where x: "x = (r, m, out)" by (cases x)
  show ?case
  proof (cases "out = Sent \<and> r_recurring r = ''yes''")
    case False
    then show ?thesis using Cons.IH [of n] x by auto
  next
    case True
    show ?thesis
    proof (cases "successor_row env owner pd (Suc n) r")
      case None
      then show ?thesis using Cons.IH [of n] x True by auto
    next
      case (Some e')
      have "e_id e' = Suc n" using successor_row_id [OF Some] .
      then show ?thesis using Cons.IH [of "Suc n"] x True Some
        by (auto simp: max_rowid_def)
    qed
  qed
qed


lemma marked_ids_single: "marked_ids [(r, m, out)] = (if marked out then {r_id r} else {})"
  by (force simp: marked_ids_def)

lemma marked_ids_Cons: "marked_ids (x # tr) = marked_ids [x] \<union> marked_ids tr"
  by (auto simp: marked_ids_def)

lemma mark_sent_frame:
  "users (mark_sent i s) = users s" "paid_default (mark_sent i s) = paid_default s"
  by (simp_all add: mark_sent_def)

lemma process_item_store:
  "snd (process_item env k x r s) =
     (if marked (outcome_of env k x)
      then (if outcome_of env k x = Sent \<and> r_recurring r = ''yes''
            then createNextRecurringExpense env k r (mark_sent (r_id r) s)
            else mark_sent (r_id r) s)
      else s)"
  by (simp add: process_item_def outcome_of_def run_def split: js_result.splits option.splits)

lemma process_item_step:
  assumes "process_item env k x r s = (out, s1)"
  shows "expenses s1 = mark_all (marked_ids [(r, m, out)]) (expenses s) @
           new_rows env (\<lambda>i. get_user_id i s) (paid_default s) (last_rowid s) [(r, m, out)]"
    and "last_rowid s1 = last_rowid s +
           length (new_rows env (\<lambda>i. get_user_id i s) (paid_default s) (last_rowid s) [(r, m, out)])"
proof -
  have out: "out = outcome_of env k x"
    using process_item_outcome [of env k x r s] assms by simp
  have s1: "s1 = (if marked out
      then (if out = Sent \<and> r_recurring r = ''yes''
            then createNextRecurringExpense env k r (mark_sent (r_id r) s)
            else mark_sent (r_id r) s)
      else s)"
    using process_item_store [of env k x r s] assms out by simp
  show "expenses s1 = mark_all (marked_ids [(r, m, out)]) (expenses s) @
           new_rows env (\<lambda>i. get_user_id i s) (paid_default s) (last_rowid s) [(r, m, out)]"
    by (simp add: s1 marked_ids_single mark_all_empty createNext_expenses
        expenses_mark_sent get_user_id_mark_sent last_rowid_mark_sent mark_sent_frame
        split: option.splits)
  show "last_rowid s1 = last_rowid s +
           length (new_rows env (\<lambda>i. get_user_id i s) (paid_default s) (last_rowid s) [(r, m, out)])"
    by (simp add: s1 createNext_last_rowid
        get_user_id_mark_sent last_rowid_mark_sent mark_sent_frame
        split: option.splits)
qed

lemma process_item_frame:
  assumes "process_item env k x r s = (out, s1)"
  shows "users s1 = users s" and "paid_default s1 = paid_default s"
  using process_item_store [of env k x r s] assms
  by (simp_all add: createNext_frame mark_sent_frame)

lemma find_fresh:
  "\<forall>e \<in> set fs. e_id e \<noteq> i \<Longrightarrow> find (\<lambda>e. e_id e = i) (es @ fs) = find (\<lambda>e. e_id e = i) es"
  by (induction es) (auto simp: find_None_iff)

lemma new_rows_Cons:
  "new_rows env f pd n (x # tr) = new_rows env f pd n [x] @ new_rows env f pd (n + length (new_rows env f pd n [x])) tr"
  by (cases x) (simp split: option.splits)

text \<open>The loop in closed form: the rows that were there are marked, the successors are appended.\<close>

lemma process_loop_store:
  assumes "\<forall>r \<in> set rs. r_id r \<le> last_rowid s"
  shows "expenses (fst (process_loop env send k rs s)) =
           mark_all (marked_ids (outcomes env send k rs)) (expenses s) @
           new_rows env (\<lambda>i. get_user_id i s) (paid_default s) (last_rowid s) (outcomes env send k rs)
         \<and> last_rowid (fst (process_loop env send k rs s)) = last_rowid s +
           length (new_rows env (\<lambda>i. get_user_id i s) (paid_default s) (last_rowid s) (outcomes env send k rs))
         \<and> users (fst (process_loop env send k rs s)) = users s
         \<and> paid_default (fst (process_loop env send k rs s)) = paid_default s"
  using assms
proof (induction rs arbitrary: k s)
  case Nil
  show ?case by (simp add: marked_ids_def mark_all_empty)
next
  case (Cons r rs)
  define x where "x = send k (mail_of r)"
  define out where "out = outcome_of env k x"
  define s1 where "s1 = snd (process_item env k x r s)"
  define f where "f = (\<lambda>i. get_user_id i s)"
  define pd where "pd = paid_default s"
  define n where "n = last_rowid s"
  define m where "m = mail_of r"
  define new1 where "new1 = new_rows env f pd n [(r, m, out)]"
  define tr where "tr = outcomes env send (Suc k) rs"
  have p: "process_item env k x r s = (out, s1)"
    using process_item_outcome [of env k x r s] by (simp add: out_def s1_def prod_eq_iff)
  note st0 = process_item_step [OF p, where m = m, folded f_def pd_def n_def]
  note st = st0 [folded new1_def] process_item_frame [OF p, folded pd_def]
  have ge: "last_rowid s \<le> last_rowid s1"
    unfolding st(2) n_def by simp
  have bound: "\<forall>r' \<in> set rs. r_id r' \<le> last_rowid s1"
  proof
    fix r' assume "r' \<in> set rs"
    then have "r_id r' \<le> last_rowid s" using Cons.prems by simp
    then show "r_id r' \<le> last_rowid s1" using ge by simp
  qed
  note ih = Cons.IH [OF bound, of "Suc k", folded tr_def]
  have fresh: "\<forall>e \<in> set new1. n < e_id e"
    using new_rows_ids [of _ env f pd n "[(r, m, out)]"] by (auto simp: new1_def)
  have ids_tr: "\<forall>y \<in> set tr. r_id (fst y) \<le> n"
  proof
    fix y assume "y \<in> set tr"
    then have "fst y \<in> set (map fst tr)" by simp
    then have "fst y \<in> set rs" by (simp add: tr_def map_fst_outcomes)
    then show "r_id (fst y) \<le> n" using Cons.prems by (simp add: n_def)
  qed
  have sub: "marked_ids tr \<subseteq> {i. i \<le> n}"
    using ids_tr by (auto simp: marked_ids_def)
  have mark_new: "mark_all (marked_ids tr) new1 = new1"
  proof (rule mark_all_fresh, rule ballI)
    fix e assume "e \<in> set new1"
    then have "n < e_id e" using fresh by simp
    then show "e_id e \<notin> marked_ids tr" using sub by fastforce
  qed
  have lookup: "\<forall>y \<in> set tr. get_user_id (r_id (fst y)) s1 = f (r_id (fst y))"
  proof
    fix y assume y: "y \<in> set tr"
    have "\<forall>e \<in> set new1. e_id e \<noteq> r_id (fst y)"
      using fresh ids_tr y by fastforce
    then have "find (\<lambda>e. e_id e = r_id (fst y)) (expenses s1) =
               find (\<lambda>e. e_id e = r_id (fst y)) (mark_all (marked_ids [(r, m, out)]) (expenses s))"
      unfolding st(1) by (rule find_fresh)
    then show "get_user_id (r_id (fst y)) s1 = f (r_id (fst y))"
      by (simp add: get_user_id_def f_def find_mark_all)
  qed
  have rows: "new_rows env (\<lambda>i. get_user_id i s1) pd (n + length new1) tr = new_rows env f pd (n + length new1) tr"
    using lookup by (intro new_rows_cong) simp
  have loop: "process_loop env send k (r # rs) s =
      (fst (process_loop env send (Suc k) rs s1), (r, m, out) # snd (process_loop env send (Suc k) rs s1))"
    using p by (simp add: x_def m_def split: prod.splits)
  have outs: "outcomes env send k (r # rs) = (r, m, out) # tr"
    by (simp add: out_def x_def tr_def m_def)
  have nr: "new_rows env f pd n ((r, m, out) # tr) = new1 @ new_rows env f pd (n + length new1) tr"
    unfolding new1_def by (rule new_rows_Cons)
  have si: "marked_ids ((r, m, out) # tr) = marked_ids [(r, m, out)] \<union> marked_ids tr"
    by (rule marked_ids_Cons)
  have e: "expenses (fst (process_loop env send (Suc k) rs s1)) =
      mark_all (marked_ids ((r, m, out) # tr)) (expenses s) @ new_rows env f pd n ((r, m, out) # tr)"
    unfolding nr si using ih st rows mark_new
    by (simp add: mark_all_append mark_all_twice)
  have l: "last_rowid (fst (process_loop env send (Suc k) rs s1)) =
      n + length (new_rows env f pd n ((r, m, out) # tr))"
    unfolding nr using ih st rows by simp
  show ?case
    unfolding loop outs fst_conv
    using e l ih st by (simp add: f_def pd_def n_def)
qed

section \<open>The email service returns a result\<close>

text \<open>
  Claim C10. For every input \<^verbatim>\<open>sendReminderEmail\<close> returns a result value and never
  throws: without an initialised client the result is the failure
  \<^verbatim>\<open>Email service not configured\<close>; when the provider throws or reports an error the
  result is a failure with that error's message; and the result is a success, with the
  provider's message id, exactly when the provider answered with data and without error.
\<close>

theorem sendReminderEmail_returns:
  "(\<exists>res. sendReminderEmail resend mail = Returns res) \<and>
   (resend = None \<longrightarrow>
      sendReminderEmail resend mail =
        Returns \<lparr>success = False, messageId = None, error = Some ''Email service not configured''\<rparr>) \<and>
   (\<forall>client msg. resend = Some client \<and> client mail = Throws msg \<longrightarrow>
      sendReminderEmail resend mail =
        Returns \<lparr>success = False, messageId = None, error = Some msg\<rparr>) \<and>
   (\<forall>client d msg. resend = Some client \<and> client mail = Returns (Response d (Some msg)) \<longrightarrow>
      sendReminderEmail resend mail =
        Returns \<lparr>success = False, messageId = None, error = Some msg\<rparr>) \<and>
   (\<forall>client i. resend = Some client \<and> client mail = Returns (Response (Some i) None) \<longrightarrow>
      sendReminderEmail resend mail =
        Returns \<lparr>success = True, messageId = Some i, error = None\<rparr>) \<and>
   (\<forall>res. sendReminderEmail resend mail = Returns res \<and> success res \<longrightarrow>
      (\<exists>client i. resend = Some client \<and> client mail = Returns (Response (Some i) None) \<and>
         messageId res = Some i))"
proof (cases resend)
  case None
  then show ?thesis by (simp add: sendReminderEmail_def)
next
  case (Some client)
  show ?thesis
  proof (cases "client mail")
    case (Throws msg)
    then show ?thesis using Some by (simp add: sendReminderEmail_def try_catch_def)
  next
    case (Returns resp)
    obtain d e where resp: "resp = Response d e" by (cases resp)
    show ?thesis
    proof (cases e)
      case (Some msg)
      then show ?thesis using \<open>resend = Some client\<close> Returns resp
        by (simp add: sendReminderEmail_def try_catch_def)
    next
      case None
      then show ?thesis using \<open>resend = Some client\<close> Returns resp
        by (cases d) (simp_all add: sendReminderEmail_def try_catch_def)
    qed
  qed
qed

theorem sendReminderEmail_returns_witness:
  "sendReminderEmail None mail0 =
     Returns \<lparr>success = False, messageId = None, error = Some ''Email service not configured''\<rparr> \<and>
   sendReminderEmail (Some (\<lambda>m. Throws ''timeout'')) mail0 =
     Returns \<lparr>success = False, messageId = None, error = Some ''timeout''\<rparr> \<and>
   sendReminderEmail (Some (\<lambda>m. Returns (Response None (Some ''invalid key'')))) mail0 =
     Returns \<lparr>success = False, messageId = None, error = Some ''invalid key''\<rparr> \<and>
   sendReminderEmail (Some (\<lambda>m. Returns (Response (Some ''msg-1'') None))) mail0 =
     Returns \<lparr>success = True, messageId = Some ''msg-1'', error = None\<rparr> \<and>
   (\<exists>res. sendReminderEmail (Some (\<lambda>m. Returns (Response None None))) mail0 = Returns res \<and>
      \<not> success res)"
  using sendReminderEmail_returns [of None mail0]
    sendReminderEmail_returns [of "Some (\<lambda>m. Throws ''timeout'')" mail0]
    sendReminderEmail_returns [of "Some (\<lambda>m. Returns (Response None (Some ''invalid key'')))" mail0]
    sendReminderEmail_returns [of "Some (\<lambda>m. Returns (Response (Some ''msg-1'') None))" mail0]
    sendReminderEmail_returns [of "Some (\<lambda>m. Returns (Response None None))" mail0]
  by (auto simp: sendReminderEmail_def try_catch_def)

section \<open>Dates as strings\<close>

text \<open>
  The strings \<^verbatim>\<open>toISOString().split('T')[0]\<close> produces for the years 0 to 9999 are the
  strings of the form \<^verbatim>\<open>YYYY-MM-DD\<close>. The database keeps them as text, compares them in
  the order of the calendar, and \<^verbatim>\<open>new Date\<close> reads them back.
\<close>

lemma digit_char_cases:
  "digit_char n = (if n mod 10 = 0 then CHR ''0'' else if n mod 10 = 1 then CHR ''1''
     else if n mod 10 = 2 then CHR ''2'' else if n mod 10 = 3 then CHR ''3''
     else if n mod 10 = 4 then CHR ''4'' else if n mod 10 = 5 then CHR ''5''
     else if n mod 10 = 6 then CHR ''6'' else if n mod 10 = 7 then CHR ''7''
     else if n mod 10 = 8 then CHR ''8'' else CHR ''9'')"
proof -
  have "n mod 10 < 10" by simp
  then have "n mod 10 \<in> {0, 1, 2, 3, 4, 5, 6, 7, 8, 9}" by (simp; arith)
  then show ?thesis by (auto simp: digit_char_def)
qed

lemma of_char_digit_char: "of_char (digit_char n) = (48 + n mod 10 :: nat)"
proof -
  have "n mod 10 < 10" by simp
  then have "n mod 10 \<in> {0, 1, 2, 3, 4, 5, 6, 7, 8, 9}" by (simp; arith)
  then show ?thesis unfolding digit_char_cases by auto
qed

lemma digit_char_less: "digit_char a < digit_char b \<longleftrightarrow> a mod 10 < b mod 10"
  by (simp add: less_char_def of_char_digit_char)

lemma digit_char_eq: "digit_char a = digit_char b \<longleftrightarrow> a mod 10 = b mod 10"
proof -
  have "digit_char a = digit_char b \<longleftrightarrow> (of_char (digit_char a) :: nat) = of_char (digit_char b)"
    by (simp only: of_char_eq_iff)
  then show ?thesis by (simp add: of_char_digit_char)
qed

lemma lex_base:
  fixes q r q' r' :: nat
  assumes "r < n" and "r' < n"
  shows "(q < q' \<or> q = q' \<and> (r < r' \<or> r = r' \<and> P)) \<longleftrightarrow>
      (n * q + r < n * q' + r' \<or> n * q + r = n * q' + r' \<and> P)"
proof -
  have 1: "n * q + r < n * q' + r'" if "q < q'"
  proof -
    have "n * q + r < n * q + n" using assms(1) by simp
    also have "\<dots> = n * Suc q" by simp
    also have "\<dots> \<le> n * q'" using that by (intro mult_le_mono2) simp
    finally show ?thesis by simp
  qed
  have 2: "n * q' + r' < n * q + r" if "q' < q"
  proof -
    have "n * q' + r' < n * q' + n" using assms(2) by simp
    also have "\<dots> = n * Suc q'" by simp
    also have "\<dots> \<le> n * q" using that by (intro mult_le_mono2) simp
    finally show ?thesis by simp
  qed
  consider "q < q'" | "q' < q" | "q = q'" by linarith
  then show ?thesis
  proof cases
    case 1
    then show ?thesis using \<open>q < q' \<Longrightarrow> n * q + r < n * q' + r'\<close> by simp
  next
    case 2
    then show ?thesis using \<open>q' < q \<Longrightarrow> n * q' + r' < n * q + r\<close> by auto
  next
    case 3
    then show ?thesis by auto
  qed
qed

lemma lex_div_mod:
  fixes a b :: nat
  assumes "0 < n"
  shows "(a div n < b div n \<or> a div n = b div n \<and> (a mod n < b mod n \<or> a mod n = b mod n \<and> P))
     \<longleftrightarrow> (a < b \<or> a = b \<and> P)"
  using lex_base [of "a mod n" n "b mod n" "a div n" "b div n" P] assms by simp

lemma digits2_le:
  assumes "a < 100" and "b < 100"
  shows "digits2 a @ xs \<le> digits2 b @ ys \<longleftrightarrow> a < b \<or> a = b \<and> xs \<le> ys"
proof -
  have a: "a div 10 mod 10 = a div 10" using assms(1) by simp
  have b: "b div 10 mod 10 = b div 10" using assms(2) by simp
  have "digits2 a @ xs \<le> digits2 b @ ys \<longleftrightarrow>
      a div 10 < b div 10 \<or> a div 10 = b div 10 \<and>
        (a mod 10 < b mod 10 \<or> a mod 10 = b mod 10 \<and> xs \<le> ys)"
    by (simp add: digits2_def digit_char_less digit_char_eq a b)
  also have "\<dots> \<longleftrightarrow> a < b \<or> a = b \<and> xs \<le> ys"
    by (rule lex_div_mod) simp
  finally show ?thesis .
qed

lemma div_mod_100:
  fixes n :: nat
  shows "n div 10 mod 10 = n mod 100 div 10" and "n mod 100 mod 10 = n mod 10"
    and "n div 1000 mod 10 = n div 100 div 10 mod 10" and "n div 100 mod 10 = n div 100 mod 10"
proof -
  have "n mod 100 = n mod (10 * 10)" by simp
  also have "\<dots> = 10 * (n div 10 mod 10) + n mod 10" by (rule mod_mult2_eq)
  finally have e: "n mod 100 = 10 * (n div 10 mod 10) + n mod 10" .
  show "n div 10 mod 10 = n mod 100 div 10" unfolding e by simp
  show "n mod 100 mod 10 = n mod 10" unfolding e by simp
  have "n div 1000 = n div (100 * 10)" by simp
  also have "\<dots> = n div 100 div 10" by (rule div_mult2_eq)
  finally show "n div 1000 mod 10 = n div 100 div 10 mod 10" by simp
  show "n div 100 mod 10 = n div 100 mod 10" ..
qed

lemma digits4_split: "digits4 n = digits2 (n div 100) @ digits2 (n mod 100)"
proof -
  have 1: "digit_char (n div 1000) = digit_char (n div 100 div 10)"
    unfolding digit_char_eq by (rule div_mod_100(3))
  have 2: "digit_char (n div 10) = digit_char (n mod 100 div 10)"
    unfolding digit_char_eq using div_mod_100(1) [of n] by simp
  have 3: "digit_char n = digit_char (n mod 100)"
    unfolding digit_char_eq using div_mod_100(2) [of n] by simp
  show ?thesis
    unfolding digits4_def digits2_def 1 2 using 3 by simp
qed

lemma digits4_le:
  assumes "a < 10000" and "b < 10000"
  shows "digits4 a @ xs \<le> digits4 b @ ys \<longleftrightarrow> a < b \<or> a = b \<and> xs \<le> ys"
proof -
  have a: "a div 100 < 100" "a mod 100 < 100" using assms(1) by simp_all
  have b: "b div 100 < 100" "b mod 100 < 100" using assms(2) by simp_all
  have "digits4 a @ xs \<le> digits4 b @ ys \<longleftrightarrow>
      digits2 (a div 100) @ (digits2 (a mod 100) @ xs) \<le>
      digits2 (b div 100) @ (digits2 (b mod 100) @ ys)"
    unfolding digits4_split by simp
  also have "\<dots> \<longleftrightarrow> a div 100 < b div 100 \<or> a div 100 = b div 100 \<and>
        (a mod 100 < b mod 100 \<or> a mod 100 = b mod 100 \<and> xs \<le> ys)"
    unfolding digits2_le [OF a(1) b(1)] digits2_le [OF a(2) b(2)] ..
  also have "\<dots> \<longleftrightarrow> a < b \<or> a = b \<and> xs \<le> ys"
    by (rule lex_div_mod) simp
  finally show ?thesis .
qed

text \<open>
  On strings of the form \<^verbatim>\<open>YYYY-MM-DD\<close> the comparison of the database is the order of
  the calendar.
\<close>

lemma iso_date_le:
  assumes "0 \<le> y" "y \<le> 9999" "0 \<le> y'" "y' \<le> 9999" "m < 12" "m' < 12" "d < 100" "d' < 100"
  shows "Text (iso_date (y, m, d)) \<le> Text (iso_date (y', m', d')) \<longleftrightarrow>
         (y, m, d) \<le> (y', m', d')"
proof -
  have n: "nat y < 10000" "nat y' < 10000" "Suc m < 100" "Suc m' < 100"
    using assms by simp_all
  have "Text (iso_date (y, m, d)) \<le> Text (iso_date (y', m', d')) \<longleftrightarrow>
      digits4 (nat y) @ (CHR ''-'' # digits2 (Suc m) @ (CHR ''-'' # digits2 d @ [])) \<le>
      digits4 (nat y') @ (CHR ''-'' # digits2 (Suc m') @ (CHR ''-'' # digits2 d' @ []))"
    using assms(1-4) by (simp add: less_eq_sql_value_def iso_date_def)
  also have "\<dots> \<longleftrightarrow> nat y < nat y' \<or> nat y = nat y' \<and>
      (Suc m < Suc m' \<or> Suc m = Suc m' \<and> (d < d' \<or> d = d'))"
    unfolding digits4_le [OF n(1,2)] Cons_le_Cons digits2_le [OF n(3,4)]
      digits2_le [OF assms(7,8)]
    by simp
  also have "\<dots> \<longleftrightarrow> (y, m, d) \<le> (y', m', d')"
    using assms(1,3) by (auto simp: less_eq_prod_def less_prod_def)
  finally show ?thesis .
qed

lemma digit_of_digit_char: "digit_of (digit_char n) = Some (n mod 10)"
proof -
  have "(of_char (digit_char n) :: nat) = 48 + n mod 10" by (rule of_char_digit_char)
  moreover have "n mod 10 \<le> 9"
  proof -
    have "n mod 10 < 10" by simp
    then show ?thesis by linarith
  qed
  ultimately show ?thesis by (simp add: digit_of_def Let_def)
qed

lemma digit_of_dash: "digit_of CHR ''-'' = None"
  by (simp add: digit_of_def)

lemma digit_char_not_sign: "digit_char n \<noteq> CHR ''-''" "digit_char n \<noteq> CHR ''+''"
  using digit_of_digit_char [of n] by (auto simp: digit_of_def)

lemma affinity_iso_date:
  assumes "0 \<le> y" and "y \<le> 9999"
  shows "affinity (iso_date (y, m, d)) = Text (iso_date (y, m, d))"
  using assms
  by (simp add: affinity_def integer_literal_def number_of_def iso_date_def digits4_def
      digit_char_not_sign digit_of_digit_char digit_of_dash)

lemma number_of_digits2: "n < 100 \<Longrightarrow> number_of (digits2 n) = Some n"
  by (simp add: number_of_def digits2_def digit_of_digit_char)

lemma number_of_digits4:
  assumes "n < 10000"
  shows "number_of (digits4 n) = Some n"
proof -
  have a: "n div 100 < 100" using assms by simp
  have "number_of (digits4 n) = Some (10 * (10 * (10 * (n div 100 div 10 mod 10) +
      n div 100 mod 10) + n mod 100 div 10 mod 10) + n mod 100 mod 10)"
    unfolding digits4_split
    by (simp add: number_of_def digits2_def digit_of_digit_char)
  also have "10 * (n div 100 div 10 mod 10) + n div 100 mod 10 = n div 100"
    using a by simp
  also have "10 * (n div 100) + n mod 100 div 10 mod 10 = (10 * (n div 100) + n mod 100 div 10)"
    by simp
  also have "10 * (10 * (n div 100) + n mod 100 div 10) + n mod 100 mod 10 = n"
    by simp
  finally show ?thesis .
qed

lemma length_digits: "length (digits4 n) = 4" "length (digits2 n) = 2"
  by (simp_all add: digits4_def digits2_def)

lemma parse_date_only_iso_date:
  assumes "0 \<le> y" and "y \<le> 9999" and "m < 12" and "1 \<le> d" and "d \<le> 31"
  shows "parse_date_only (iso_date (y, m, d)) = Some (MakeDay y m d)"
proof -
  define s where "s = iso_date (y, m, d)"
  have s: "s = digits4 (nat y) @ CHR ''-'' # digits2 (Suc m) @ CHR ''-'' # digits2 d"
    using assms(1,2) by (simp add: s_def iso_date_def)
  have 1: "length s = 10" "s ! 4 = CHR ''-''" "s ! 7 = CHR ''-''"
    unfolding s by (simp_all add: nth_append nth_Cons' length_digits)
  have 2: "take 4 s = digits4 (nat y)" "take 2 (drop 5 s) = digits2 (Suc m)"
    "drop 8 s = digits2 d"
    unfolding s by (simp_all add: length_digits)
  have 3: "number_of (digits4 (nat y)) = Some (nat y)"
    "number_of (digits2 (Suc m)) = Some (Suc m)" "number_of (digits2 d) = Some d"
    using assms by (simp_all add: number_of_digits4 number_of_digits2)
  show ?thesis
    unfolding s_def [symmetric] parse_date_only_def 1 2 3 using assms by simp
qed

lemma MakeDay_valid:
  assumes "m < 12" and "d \<le> days_in_month y m"
  shows "MakeDay y m d = (y, m, d)"
  using assms by (simp add: MakeDay_def)

lemma stored_date_order:
  assumes "0 \<le> y" "y \<le> 9999" "0 \<le> y'" "y' \<le> 9999" "m < 12" "m' < 12" "d < 100" "d' < 100"
  shows "affinity (iso_date (y, m, d)) \<le> affinity (iso_date (y', m', d')) \<longleftrightarrow>
         (y, m, d) \<le> (y', m', d')"
  unfolding affinity_iso_date [OF assms(1,2)] affinity_iso_date [OF assms(3,4)]
  using assms by (rule iso_date_le)

section \<open>The date of the successor\<close>

lemmas date_defs = next_month_date_def toISOString_date_def new_Date_def parse_date_only_def
  number_of_def digit_of_def setMonth_def getMonth_def MakeDay_def days_in_month_def
  leap_year_def LocalTime_def UTC_def shift_def add_days_def next_day_def prev_day_def
  iso_date_def digits2_def digits4_def digit_char_def integer_literal_def affinity_def

lemma pendingReminders_jan_store:
  "pendingReminders ''2024-01-28'' jan_store = [join_row rent_jan asha]"
  by (simp add: pendingReminders_def jan_store_def owners_def rent_jan_def asha_def
      less_eq_sql_value_def date_defs)

text \<open>
  Claim C2, evaluated on the code. The claim asks for the successor of a recurring expense
  due on 2024-01-31 to be due on 2024-02-29, the last day of the following month. A sweep
  over such an expense, with a notifier that succeeds, inserts a successor that is due on
  2024-03-02: \<^verbatim>\<open>setMonth\<close> carries the two days February lacks into March. The spec's
  words, applied to the stored date, give 2024-02-29.
\<close>

theorem recurrence_month_end:
  "expenses (fst (processReminders utc_env ''2024-01-28'' always_ok jan_store)) =
     [rent_jan\<lparr>email_sent := 1\<rparr>,
      rent_jan\<lparr>e_id := 2, due_date := Text ''2024-03-02'',
        reminder_date := Text ''2024-02-28''\<rparr>] \<and>
   due_date rent_jan = Text ''2024-01-31'' \<and>
   map_option (iso_date \<circ> add_month_clamped) (parse_date_only ''2024-01-31'') =
     Some ''2024-02-29''"
  unfolding processReminders_def pendingReminders_jan_store
  by (simp add: process_item_def always_ok_def mark_sent_def run_def
      createNextRecurringExpense_def get_user_id_def insert_expense_def last_rowid_def
      max_rowid_def join_row_def mail_of_def jan_store_def rent_jan_def asha_def
      add_month_clamped_def utc_env_def date_defs)

text \<open>
  The successor's date does not depend on the zone of the process here: five hours behind
  UTC and five and a half hours ahead of it, the date after 2024-01-31 is 2024-03-02 as
  well.
\<close>

lemma month_end_zones:
  "next_month_date utc_env (Text ''2024-01-31'') = Some ''2024-03-02'' \<and>
   next_month_date west_env (Text ''2024-01-31'') = Some ''2024-03-02'' \<and>
   next_month_date east_env (Text ''2024-01-31'') = Some ''2024-03-02''"
  by (simp add: date_defs utc_env_def west_env_def east_env_def)

lemma neg_div_mod:
  fixes c :: int
  assumes "- 86400000 < c" and "c < 0"
  shows "c div 86400000 = - 1" and "c mod 86400000 = c + 86400000"
proof -
  have d: "(c + 86400000) div 86400000 = 0" using assms by simp
  have "(c + 86400000) div 86400000 = c div 86400000 + 1" by simp
  then show 1: "c div 86400000 = - 1" using d by simp
  show "c mod 86400000 = c + 86400000"
    using mult_div_mod_eq [of 86400000 c] unfolding 1 by simp
qed

text \<open>
  In every zone with a fixed offset from UTC of less than a day, the date after
  2024-01-31 is 2024-03-02.
\<close>

lemma month_end_every_zone:
  assumes "\<forall>t. LocalTZA_utc env t = c" and "\<forall>t. LocalTZA_local env t = c"
    and "- 86400000 < c" and "c < 86400000"
  shows "next_month_date env (Text ''2024-01-31'') = Some ''2024-03-02''"
proof -
  have z: "LocalTZA_utc env t = c \<and> LocalTZA_local env t = c" for t
    using assms(1) [rule_format, of t] assms(2) [rule_format, of t] by (rule conjI)
  have n: "new_Date env (Text ''2024-01-31'') = Some ((2024, 0, 31), 0)"
    by (simp add: new_Date_def parse_date_only_def number_of_def digit_of_def MakeDay_def
        days_in_month_def)
  show ?thesis
  proof (cases "0 \<le> c")
    case True
    then have dm: "c div 86400000 = 0" "c mod 86400000 = c" using assms(4) by simp_all
    have l: "LocalTime env ((2024, 0, 31), 0) = ((2024, 0, 31), nat c)"
      by (simp add: LocalTime_def z shift_def dm add_days_def)
    have u: "UTC env ((2024, 2, 2), nat c) = ((2024, 2, 2), 0)"
      using True by (simp add: UTC_def z shift_def add_days_def)
    have m: "MakeDay 2024 (Suc 0) 31 = (2024, 2, 2)"
      by (simp add: MakeDay_def days_in_month_def leap_year_def)
    have "setMonth env (getMonth env ((2024, 0, 31), 0) + 1) ((2024, 0, 31), 0) =
        ((2024, 2, 2), 0)"
      by (simp add: getMonth_def setMonth_def l m u)
    then show ?thesis
      by (simp add: next_month_date_def n toISOString_date_def iso_date_def digits2_def
          digits4_def digit_char_def)
  next
    case False
    then have dm: "c div 86400000 = - 1" "c mod 86400000 = c + 86400000"
      using neg_div_mod [of c] assms(3) by simp_all
    have l: "LocalTime env ((2024, 0, 31), 0) = ((2024, 0, 30), nat (c + 86400000))"
      by (simp add: LocalTime_def z shift_def dm add_days_def prev_day_def)
    have u: "UTC env ((2024, 2, Suc 0), nat (c + 86400000)) = ((2024, 2, 2), 0)"
      using assms(3) by (simp add: UTC_def z shift_def add_days_def next_day_def
          days_in_month_def)
    have m: "MakeDay 2024 (Suc 0) 30 = (2024, 2, 1)"
      by (simp add: MakeDay_def days_in_month_def leap_year_def)
    have "setMonth env (getMonth env ((2024, 0, 31), 0) + 1) ((2024, 0, 31), 0) =
        ((2024, 2, 2), 0)"
      by (simp add: getMonth_def setMonth_def l m u)
    then show ?thesis
      by (simp add: next_month_date_def n toISOString_date_def iso_date_def digits2_def
          digits4_def digit_char_def)
  qed
qed

text \<open>
  For other dates the zone matters. \<^verbatim>\<open>setMonth\<close> works on the local fields of a time
  that was read as midnight UTC: behind UTC that is the evening before, so the date after
  2024-03-01 is 2024-03-30 (from 29 February, 19:00 local time, to 29 March), where a
  process in UTC gives 2024-04-01.
\<close>

lemma next_month_date_zone:
  "next_month_date utc_env (Text ''2024-03-01'') = Some ''2024-04-01'' \<and>
   next_month_date west_env (Text ''2024-03-01'') = Some ''2024-03-30'' \<and>
   next_month_date east_env (Text ''2024-03-01'') = Some ''2024-04-01''"
  by (simp add: date_defs utc_env_def west_env_def east_env_def)

text \<open>
  A day that its month does not have is carried when the string is read: 2024-02-30 is
  read as 1 March, and its successor date is 1 April.
\<close>

lemma next_month_date_carried_day:
  "new_Date env (Text ''2024-02-30'') = Some ((2024, 2, 1), 0) \<and>
   next_month_date utc_env (Text ''2024-02-30'') = Some ''2024-04-01''"
  by (simp add: date_defs utc_env_def)

text \<open>
  Whenever the target month has the day of the month, \<^verbatim>\<open>setMonth\<close> computes on the fields
  what the spec's words say.
\<close>

lemma MakeDay_fits:
  assumes "m < 12"
    and "d \<le> days_in_month (if m = 11 then y + 1 else y) (if m = 11 then 0 else Suc m)"
  shows "MakeDay y (Suc m) d = add_month_clamped (y, m, d)"
proof (cases "m = 11")
  case True
  then show ?thesis using assms
    by (simp add: MakeDay_def add_month_clamped_def)
next
  case False
  then have "Suc m < 12" using assms(1) by simp
  then show ?thesis using assms False
    by (simp add: MakeDay_def add_month_clamped_def)
qed

lemma days_in_month_le: "days_in_month y m \<le> 31"
  by (simp add: days_in_month_def)

lemma shift_zero: "shift (c, 0) 0 = (c, 0)"
  by (simp add: shift_def add_days_def)

text \<open>
  So for a stored date of the form \<^verbatim>\<open>YYYY-MM-DD\<close> that the calendar has, in a process in
  UTC, the code computes the date the spec's words give whenever the target month has the
  day of the month.
\<close>

lemma next_month_date_fits:
  assumes "\<forall>t. LocalTZA_utc env t = 0" and "\<forall>t. LocalTZA_local env t = 0"
    and "0 \<le> y" and "y \<le> 9999" and "m < 12" and "1 \<le> d" and "d \<le> days_in_month y m"
    and "d \<le> days_in_month (if m = 11 then y + 1 else y) (if m = 11 then 0 else Suc m)"
  shows "next_month_date env (Text (iso_date (y, m, d))) =
         Some (iso_date (add_month_clamped (y, m, d)))"
proof -
  have d31: "d \<le> 31" using assms(7) days_in_month_le [of y m] by simp
  have p: "parse_date_only (iso_date (y, m, d)) = Some (y, m, d)"
    using parse_date_only_iso_date [OF assms(3,4,5,6) d31] MakeDay_valid [OF assms(5,7)]
    by simp
  have z: "LocalTZA_utc env t = 0 \<and> LocalTZA_local env t = 0" for t
    using assms(1) [rule_format, of t] assms(2) [rule_format, of t] by (rule conjI)
  have n: "new_Date env (Text (iso_date (y, m, d))) = Some ((y, m, d), 0)"
    by (simp add: new_Date_def p)
  have g: "getMonth env ((y, m, d), 0) = m"
    by (simp add: getMonth_def LocalTime_def z shift_zero)
  have s: "setMonth env (Suc m) ((y, m, d), 0) = (MakeDay y (Suc m) d, 0)"
    by (simp add: setMonth_def LocalTime_def UTC_def z shift_zero)
  have "next_month_date env (Text (iso_date (y, m, d))) =
      Some (iso_date (MakeDay y (Suc m) d))"
    by (simp add: next_month_date_def n g s toISOString_date_def)
  then show ?thesis using MakeDay_fits [OF assms(5,8)] by simp
qed

text \<open>
  The carry also breaks the order of the two dates: a reminder on 2024-01-31 for an expense
  due on 2024-02-01 gets a successor whose reminder date is after its due date.
\<close>

lemma successor_dates_out_of_order:
  "Text ''2024-01-31'' \<le> Text ''2024-02-01'' \<and>
   next_month_date utc_env (Text ''2024-01-31'') = Some ''2024-03-02'' \<and>
   next_month_date utc_env (Text ''2024-02-01'') = Some ''2024-03-01'' \<and>
   affinity ''2024-03-01'' < affinity ''2024-03-02''"
  by (simp add: date_defs utc_env_def less_eq_sql_value_def less_sql_value_def)

section \<open>The update and create routes\<close>

lemma foldl_assign_build_updates:
  assumes "b_reminder_date body = Some d"
  shows "email_sent (foldl assign e (build_updates body)) = 0"
    and "reminder_date (foldl assign e (build_updates body)) = affinity d"
    and "e_id (foldl assign e (build_updates body)) = e_id e"
    and "user_id (foldl assign e (build_updates body)) = user_id e"
  using assms by (simp_all add: build_updates_def split: option.splits)

lemma foldl_assign_keeps:
  "e_id (foldl assign e (build_updates body)) = e_id e \<and>
   user_id (foldl assign e (build_updates body)) = user_id e \<and>
   paid (foldl assign e (build_updates body)) = paid e \<and>
   paid_at (foldl assign e (build_updates body)) = paid_at e"
  by (simp add: build_updates_def split: option.splits)

lemma pendingReminders_set:
  "set (pendingReminders today s) =
     {join_row e u | e u. e \<in> set (expenses s) \<and> u \<in> set (users s) \<and> user_id e = u_id u \<and>
        reminder_date e \<le> affinity today \<and> email_sent e = 0}"
  by (auto simp: pendingReminders_def owners_def)

text \<open>
  Claim C6. An update of an existing expense (by its owner, passing validation) that sets
  \<^verbatim>\<open>reminder_date\<close> succeeds, and the updated row has the new reminder date (as the column
  stores it) and \<^verbatim>\<open>email_sent = 0\<close>; so on every day that the query does not compare as
  before the new reminder date, the expense of an existing owner is in the due set of a
  sweep again.
\<close>

theorem update_resets_email_sent:
  assumes "e \<in> set (expenses s)" and "e_id e = i" and "user_id e = uid"
    and "b_reminder_date body = Some d"
  shows "\<exists>s'. update_expense [] uid i body s = Inr s' \<and>
           (\<exists>e' \<in> set (expenses s'). e_id e' = i \<and> user_id e' = uid) \<and>
           (\<forall>e' \<in> set (expenses s'). e_id e' = i \<and> user_id e' = uid \<longrightarrow>
              reminder_date e' = affinity d \<and> email_sent e' = 0) \<and>
           (\<forall>today. affinity d \<le> affinity today \<and> list_ex (\<lambda>u. uid = u_id u) (users s) \<longrightarrow>
              i \<in> r_id ` set (pendingReminders today s'))"
proof -
  define upd where "upd = (\<lambda>e. if e_id e = i \<and> user_id e = uid
                                  then foldl assign e (build_updates body) else e)"
  define s' where "s' = s\<lparr>expenses := map upd (expenses s)\<rparr>"
  have found: "find (\<lambda>e. e_id e = i \<and> user_id e = uid) (expenses s) \<noteq> None"
    using assms(1-3) by (auto simp: find_None_iff)
  have nonempty: "build_updates body \<noteq> []"
    using assms(4) by (simp add: build_updates_def)
  have res: "update_expense [] uid i body s = Inr s'"
    using found nonempty by (auto simp: update_expense_def s'_def upd_def Let_def)
  have ex: "\<exists>e' \<in> set (expenses s'). e_id e' = i \<and> user_id e' = uid"
  proof
    show "upd e \<in> set (expenses s')" using assms(1) by (simp add: s'_def)
    show "e_id (upd e) = i \<and> user_id (upd e) = uid"
      using assms(2,3) foldl_assign_build_updates(3,4) [OF assms(4), of e] by (simp add: upd_def)
  qed
  have all: "\<forall>e' \<in> set (expenses s'). e_id e' = i \<and> user_id e' = uid \<longrightarrow>
              reminder_date e' = affinity d \<and> email_sent e' = 0"
  proof (intro ballI impI)
    fix e' assume "e' \<in> set (expenses s')" and m: "e_id e' = i \<and> user_id e' = uid"
    then obtain x where x: "x \<in> set (expenses s)" "e' = upd x" by (auto simp: s'_def)
    have "e_id x = i \<and> user_id x = uid"
      using m x(2) foldl_assign_keeps [of x body] by (auto simp: upd_def split: if_splits)
    then have "e' = foldl assign x (build_updates body)" using x(2) by (simp add: upd_def)
    then show "reminder_date e' = affinity d \<and> email_sent e' = 0"
      using foldl_assign_build_updates(1,2) [OF assms(4), of x] by simp
  qed
  have elig: "\<forall>today. affinity d \<le> affinity today \<and> list_ex (\<lambda>u. uid = u_id u) (users s) \<longrightarrow>
              i \<in> r_id ` set (pendingReminders today s')"
  proof (intro allI impI)
    fix today
    assume a: "affinity d \<le> affinity today \<and> list_ex (\<lambda>u. uid = u_id u) (users s)"
    then obtain u where u: "u \<in> set (users s)" "uid = u_id u" by (auto simp: list_ex_iff)
    obtain e' where e': "e' \<in> set (expenses s')" "e_id e' = i" "user_id e' = uid"
      using ex by auto
    have "reminder_date e' = affinity d" "email_sent e' = 0" using all e' by auto
    then have "e' \<in> set (expenses s') \<and> u \<in> set (users s') \<and> user_id e' = u_id u \<and>
        reminder_date e' \<le> affinity today \<and> email_sent e' = 0"
      using e' u a by (simp add: s'_def)
    then have "join_row e' u \<in> set (pendingReminders today s')"
      unfolding pendingReminders_set by blast
    moreover have "r_id (join_row e' u) = i" using e'(2) by (simp add: join_row_def)
    ultimately show "i \<in> r_id ` set (pendingReminders today s')" by force
  qed
  show ?thesis using res ex all elig by blast
qed

theorem update_resets_email_sent_witness:
  "email_sent rent_mar = 1 \<and>
   update_expense [] 1 1 (no_change\<lparr>b_reminder_date := Some ''2024-03-12''\<rparr>) mar_store =
     Inr (mar_store\<lparr>expenses :=
            [rent_mar\<lparr>reminder_date := Text ''2024-03-12'', email_sent := 0\<rparr>]\<rparr>) \<and>
   1 \<in> r_id ` set (pendingReminders ''2024-03-12''
          (mar_store\<lparr>expenses :=
             [rent_mar\<lparr>reminder_date := Text ''2024-03-12'', email_sent := 0\<rparr>]\<rparr>))"
proof -
  have ev: "update_expense [] 1 1 (no_change\<lparr>b_reminder_date := Some ''2024-03-12''\<rparr>) mar_store =
     Inr (mar_store\<lparr>expenses :=
            [rent_mar\<lparr>reminder_date := Text ''2024-03-12'', email_sent := 0\<rparr>]\<rparr>)"
    by (simp add: update_expense_def build_updates_def no_change_def mar_store_def rent_mar_def
        date_defs)
  have "rent_mar \<in> set (expenses mar_store)" by (simp add: mar_store_def)
  moreover have "e_id rent_mar = 1" "user_id rent_mar = 1" by (simp_all add: rent_mar_def)
  moreover have "b_reminder_date (no_change\<lparr>b_reminder_date := Some ''2024-03-12''\<rparr>) =
      Some ''2024-03-12''"
    by simp
  ultimately have "\<exists>s'. update_expense [] 1 1 (no_change\<lparr>b_reminder_date := Some ''2024-03-12''\<rparr>) mar_store = Inr s' \<and>
           (\<exists>e' \<in> set (expenses s'). e_id e' = 1 \<and> user_id e' = 1) \<and>
           (\<forall>e' \<in> set (expenses s'). e_id e' = 1 \<and> user_id e' = 1 \<longrightarrow>
              reminder_date e' = affinity ''2024-03-12'' \<and> email_sent e' = 0) \<and>
           (\<forall>today. affinity ''2024-03-12'' \<le> affinity today \<and>
                list_ex (\<lambda>u. 1 = u_id u) (users mar_store) \<longrightarrow>
              1 \<in> r_id ` set (pendingReminders today s'))"
    by (rule update_resets_email_sent)
  then have "affinity ''2024-03-12'' \<le> affinity ''2024-03-12'' \<and>
      list_ex (\<lambda>u. 1 = u_id u) (users mar_store) \<longrightarrow>
      1 \<in> r_id ` set (pendingReminders ''2024-03-12''
          (mar_store\<lparr>expenses :=
             [rent_mar\<lparr>reminder_date := Text ''2024-03-12'', email_sent := 0\<rparr>]\<rparr>))"
    unfolding ev by blast
  moreover have "list_ex (\<lambda>u. 1 = u_id u) (users mar_store)"
    by (simp add: mar_store_def asha_def)
  ultimately show ?thesis using ev by (simp add: rent_mar_def)
qed

text \<open>
  Claim C7, evaluated on the code. The claim asks both routes to reject a reminder date
  after the due date. The create route rejects it with status 400 (in every environment);
  the update route has no such check and stores 2024-03-20 as the reminder date of an
  expense due on 2024-03-15.
\<close>

theorem update_accepts_reminder_after_due:
  "update_expense [] 1 1 (no_change\<lparr>b_reminder_date := Some ''2024-03-20''\<rparr>) mar_store =
     Inr (mar_store\<lparr>expenses :=
            [rent_mar\<lparr>reminder_date := Text ''2024-03-20'', email_sent := 0\<rparr>]\<rparr>) \<and>
   due_date rent_mar < Text ''2024-03-20'' \<and>
   create_expense env [] 1 \<lparr>c_expense_name = ''Rent'', c_amount = 1000, c_category = None,
       c_due_date = ''2024-03-15'', c_reminder_date = ''2024-03-20'', c_recurring = None\<rparr>
     mar_store =
     Inl (400, ''Reminder date cannot be after due date'')"
  by (simp add: update_expense_def build_updates_def no_change_def mar_store_def rent_mar_def
      create_expense_def date_after_def less_sql_value_def date_defs)

section \<open>The due set\<close>

lemma owners_unique:
  assumes "distinct (map u_id us)"
  shows "length (filter (\<lambda>u. k = u_id u) us) \<le> 1"
  using assms
proof (induction us)
  case Nil
  show ?case by simp
next
  case (Cons u us)
  show ?case
  proof (cases "k = u_id u")
    case True
    then have "filter (\<lambda>u. k = u_id u) us = []"
      using Cons.prems by (auto simp: filter_empty_conv)
    then show ?thesis using True by simp
  next
    case False
    then show ?thesis using Cons by simp
  qed
qed

lemma owners_single:
  assumes "wf_store s" and "e \<in> set (expenses s)"
  shows "\<exists>u. owners s e = [u]"
proof -
  have "length (owners s e) \<le> 1"
    using assms(1) owners_unique [of "users s" "user_id e"] by (simp add: wf_store_def owners_def)
  moreover have "owners s e \<noteq> []"
    using assms by (auto simp: wf_store_def owners_def list_all_iff list_ex_iff filter_empty_conv)
  ultimately show ?thesis by (cases "owners s e") auto
qed

lemma join_ids:
  assumes "wf_store s" and "set es \<subseteq> set (expenses s)"
  shows "map r_id (concat (map (\<lambda>e. map (join_row e) (owners s e)) es)) = map e_id es"
  using assms(2)
proof (induction es)
  case Nil
  show ?case by simp
next
  case (Cons e es)
  obtain u where "owners s e = [u]" using owners_single [OF assms(1), of e] Cons.prems by auto
  then show ?case using Cons by (simp add: join_row_def)
qed

lemma pendingReminders_ids:
  assumes "wf_store s"
  shows "mset (map r_id (pendingReminders today s)) =
         mset (map e_id (filter (\<lambda>e. reminder_date e \<le> affinity today \<and> email_sent e = 0) (expenses s)))"
proof -
  have "mset (map r_id (pendingReminders today s)) =
        mset (map r_id (concat (map (\<lambda>e. map (join_row e) (owners s e))
          (filter (\<lambda>e. reminder_date e \<le> affinity today \<and> email_sent e = 0) (expenses s)))))"
    by (simp add: pendingReminders_def)
  also have "\<dots> = mset (map e_id (filter (\<lambda>e. reminder_date e \<le> affinity today \<and> email_sent e = 0) (expenses s)))"
    using join_ids [OF assms, of "filter (\<lambda>e. reminder_date e \<le> affinity today \<and> email_sent e = 0) (expenses s)"]
    by simp
  finally show ?thesis .
qed

lemma pendingReminders_distinct:
  assumes "wf_store s"
  shows "distinct (map r_id (pendingReminders today s))"
proof -
  have "distinct (map e_id (filter (\<lambda>e. reminder_date e \<le> affinity today \<and> email_sent e = 0) (expenses s)))"
    using assms by (simp add: wf_store_def distinct_map_filter)
  then show ?thesis
    using pendingReminders_ids [OF assms, of today] mset_eq_imp_distinct_iff by blast
qed

lemma pendingReminders_sorted: "sorted (map r_due_date (pendingReminders today s))"
  by (simp add: pendingReminders_def)

lemma pendingReminders_bound:
  assumes "r \<in> set (pendingReminders today s)"
  shows "r_id r \<le> last_rowid s"
proof -
  obtain e where "e \<in> set (expenses s)" "r_id r = e_id e"
    using assms by (auto simp: pendingReminders_set join_row_def)
  then show ?thesis using max_rowid_ge [of e "expenses s"] by (simp add: last_rowid_def)
qed

lemma calls_for_trace: "calls_for i (outcomes env send k rs) = count_list (map r_id rs) i"
  by (induction rs arbitrary: k) (auto simp: calls_for_def)

lemma processReminders_trace:
  "snd (processReminders env today send s) = outcomes env send 0 (pendingReminders today s)"
  by (simp add: processReminders_def process_loop_trace)

lemma map_mail_outcomes: "map (fst \<circ> snd) (outcomes env send k rs) = map mail_of rs"
  by (induction rs arbitrary: k) auto

lemmas example_defs = store0_def asha_def ben_def rent_def gym_def loan_def films_def

lemma wf_store0: "wf_store store0"
  by (simp add: wf_store_def example_defs)

lemma pendingReminders_store0_10:
  "pendingReminders ''2024-03-10'' store0 = [join_row rent asha, join_row films ben]"
  by (simp add: pendingReminders_def owners_def join_row_def example_defs
      less_eq_sql_value_def date_defs)

lemma pendingReminders_store0_11:
  "pendingReminders ''2024-03-11'' store0 =
     [join_row gym ben, join_row rent asha, join_row films ben]"
  by (simp add: pendingReminders_def owners_def join_row_def example_defs
      less_eq_sql_value_def date_defs)

lemma pending_reminders_store0_11:
  "pending_reminders ''2024-03-11'' store0 = [pending_row_of rent asha, pending_row_of gym ben]"
  by (simp add: pending_reminders_def owners_def pending_row_of_def example_defs
      less_eq_sql_value_def date_defs)

lemma pendingReminders_format_store_01:
  "pendingReminders ''2024-03-01'' format_store = [join_row water asha]"
  by (simp add: pendingReminders_def owners_def join_row_def format_store_def water_def
      power_def asha_def less_eq_sql_value_def date_defs)

lemma pendingReminders_format_store_10:
  "pendingReminders ''2024-03-10'' format_store = [join_row water asha]"
  by (simp add: pendingReminders_def owners_def join_row_def format_store_def water_def
      power_def asha_def less_eq_sql_value_def date_defs)

lemma pendingReminders_format_store_11:
  "pendingReminders ''2024-03-11'' format_store = [join_row water asha, join_row power asha]"
  by (simp add: pendingReminders_def owners_def join_row_def format_store_def water_def
      power_def asha_def less_eq_sql_value_def date_defs)

text \<open>
  The create route stores the string of the request as it is. A request with the reminder
  date \<^verbatim>\<open>20240310\<close> is accepted when \<^verbatim>\<open>new Date\<close> cannot read that string (the comparison
  with an Invalid Date is false), and the column then holds the number 20240310.
\<close>

lemma create_expense_keeps_string:
  assumes "create_expense env [] uid body s = Inr s'"
  shows "expenses s' = expenses s @ [last (expenses s')]"
    and "reminder_date (last (expenses s')) = affinity (c_reminder_date body)"
    and "due_date (last (expenses s')) = affinity (c_due_date body)"
    and "email_sent (last (expenses s')) = 0"
  using assms by (auto simp: create_expense_def insert_expense_def Let_def split: if_splits)

lemma create_expense_basic_format:
  assumes "Date_other env ''20240310'' = None"
  shows "create_expense env [] 1 \<lparr>c_expense_name = ''Water'', c_amount = 30,
       c_category = Some ''Bills'', c_due_date = ''2024-03-15'', c_reminder_date = ''20240310'',
       c_recurring = None\<rparr> \<lparr>users = [asha], expenses = [], seq = 0, paid_default = None\<rparr> =
     Inr \<lparr>users = [asha], expenses = [water], seq = 1, paid_default = None\<rparr>"
  using assms
  by (simp add: create_expense_def date_after_def insert_expense_def or_default_def
      last_rowid_def max_rowid_def water_def date_defs)

text \<open>
  Claim C4 fails as stated. The reminder date of expense 1 reached the create route as
  \<^verbatim>\<open>20240310\<close>, which is 10 March 2024 in the basic format of ISO 8601, and the column
  holds it as a number. A number compares as less than any text, so a sweep on 2024-03-01,
  before the reminder date, has the expense in its due set and calls the notifier for it.
  The reminder date of expense 2 is \<^verbatim>\<open>2024-03-10T09:00:00Z\<close>; as text it is greater than
  \<^verbatim>\<open>2024-03-10\<close>, so the sweeps of 10 March leave the expense out, and those of 11 March
  are the first to select it.
\<close>

theorem due_set_compares_stored_values:
  "reminder_date water = Number 20240310 \<and>
   map r_id (pendingReminders ''2024-03-01'' format_store) = [1] \<and>
   calls_for 1 (snd (processReminders utc_env ''2024-03-01'' always_ok format_store)) = 1 \<and>
   reminder_date power = Text ''2024-03-10T09:00:00Z'' \<and>
   map r_id (pendingReminders ''2024-03-10'' format_store) = [1] \<and>
   map r_id (pendingReminders ''2024-03-11'' format_store) = [1, 2]"
  unfolding processReminders_trace pendingReminders_format_store_01
    pendingReminders_format_store_10 pendingReminders_format_store_11
  by (simp add: calls_for_def join_row_def water_def power_def date_defs)

text \<open>
  Claim C4, amended: the dates are compared as the database compares the stored values (a
  number before any text, text byte by byte), the parameter \<open>today\<close> with the
  affinity of the column; between strings of the form
  \<^verbatim>\<open>YYYY-MM-DD\<close> that is the order of the calendar (lemma
  \<open>stored_date_order\<close>). In a consistent store the query of a sweep run on
  \<open>today\<close> returns exactly the expenses with \<^verbatim>\<open>reminder_date
  <= today\<close> in that comparison and \<^verbatim>\<open>email_sent = 0\<close>, each
  once; a row has the columns of its expense and the name and email of the user that
  \<^verbatim>\<open>user_id\<close> refers to; the rows are in ascending order of
  \<^verbatim>\<open>due_date\<close>. The notifier is called for the rows of the query in
  this order and for no others, each time with the owner's email and name and the
  expense's name, amount, due date and category of the row; so an expense whose reminder
  date compares as after \<open>today\<close> is not in the due set and gets no notifier
  call.
\<close>

theorem due_set_exact:
  assumes "wf_store s"
  shows "mset (map r_id (pendingReminders today s)) =
           mset (map e_id (filter (\<lambda>e. reminder_date e \<le> affinity today \<and> email_sent e = 0)
             (expenses s))) \<and>
         set (pendingReminders today s) =
           {\<lparr>r_id = e_id e, r_expense_name = expense_name e, r_amount = amount e,
             r_category = category e, r_due_date = due_date e,
             r_reminder_date = reminder_date e, r_recurring = recurring e,
             r_user_name = u_name u, r_user_email = u_email u\<rparr> | e u.
            e \<in> set (expenses s) \<and> u \<in> set (users s) \<and> user_id e = u_id u \<and>
            reminder_date e \<le> affinity today \<and> email_sent e = 0} \<and>
         sorted (map r_due_date (pendingReminders today s)) \<and>
         map fst (snd (processReminders env today send s)) = pendingReminders today s \<and>
         map (fst \<circ> snd) (snd (processReminders env today send s)) =
           map (\<lambda>r. \<lparr>m_to = r_user_email r, m_userName = r_user_name r,
                      m_expenseName = r_expense_name r, m_amount = r_amount r,
                      m_dueDate = r_due_date r, m_category = r_category r\<rparr>)
             (pendingReminders today s) \<and>
         (\<forall>e \<in> set (expenses s). affinity today < reminder_date e \<longrightarrow>
            e_id e \<notin> r_id ` set (pendingReminders today s) \<and>
            calls_for (e_id e) (snd (processReminders env today send s)) = 0)"
proof -
  have late: "e_id e \<notin> r_id ` set (pendingReminders today s)"
    if e: "e \<in> set (expenses s)" "affinity today < reminder_date e" for e
  proof
    assume "e_id e \<in> r_id ` set (pendingReminders today s)"
    then obtain e' where e': "e' \<in> set (expenses s)" "reminder_date e' \<le> affinity today"
        "e_id e' = e_id e"
      by (auto simp: pendingReminders_set join_row_def)
    have "inj_on e_id (set (expenses s))"
      using assms by (simp add: wf_store_def distinct_map)
    then have "e' = e" using e' e(1) by (auto dest: inj_onD)
    then show False using e'(2) e(2) by simp
  qed
  have nocall: "calls_for (e_id e) (snd (processReminders env today send s)) = 0"
    if e: "e \<in> set (expenses s)" "affinity today < reminder_date e" for e
    using late [OF e] by (simp add: processReminders_trace calls_for_trace)
  have rows: "set (pendingReminders today s) =
           {\<lparr>r_id = e_id e, r_expense_name = expense_name e, r_amount = amount e,
             r_category = category e, r_due_date = due_date e,
             r_reminder_date = reminder_date e, r_recurring = recurring e,
             r_user_name = u_name u, r_user_email = u_email u\<rparr> | e u.
            e \<in> set (expenses s) \<and> u \<in> set (users s) \<and> user_id e = u_id u \<and>
            reminder_date e \<le> affinity today \<and> email_sent e = 0}"
    unfolding pendingReminders_set join_row_def ..
  have mails: "map (fst \<circ> snd) (snd (processReminders env today send s)) =
           map (\<lambda>r. \<lparr>m_to = r_user_email r, m_userName = r_user_name r,
                      m_expenseName = r_expense_name r, m_amount = r_amount r,
                      m_dueDate = r_due_date r, m_category = r_category r\<rparr>)
             (pendingReminders today s)"
    unfolding processReminders_trace map_mail_outcomes mail_of_def ..
  have items: "map fst (snd (processReminders env today send s)) = pendingReminders today s"
    by (simp add: processReminders_trace map_fst_outcomes)
  show ?thesis
    using pendingReminders_ids [OF assms, of today] rows pendingReminders_sorted [of today s]
      items mails late nocall
    by blast
qed

theorem due_set_exact_witness:
  "wf_store store0 \<and> loan \<in> set (expenses store0) \<and>
   affinity ''2024-03-10'' < reminder_date loan \<and>
   map r_id (pendingReminders ''2024-03-10'' store0) = [1, 4] \<and>
   map r_due_date (pendingReminders ''2024-03-10'' store0) =
     [Text ''2024-03-15'', Text ''2024-03-20''] \<and>
   map r_user_email (pendingReminders ''2024-03-10'' store0) =
     [''asha@example.com'', ''ben@example.com''] \<and>
   map (fst \<circ> snd) (snd (processReminders utc_env ''2024-03-10'' always_ok store0)) =
     [\<lparr>m_to = ''asha@example.com'', m_userName = ''Asha'', m_expenseName = ''Rent'',
       m_amount = 1000, m_dueDate = Text ''2024-03-15'', m_category = ''Bills''\<rparr>,
      \<lparr>m_to = ''ben@example.com'', m_userName = ''Ben'', m_expenseName = ''Films'',
       m_amount = 15, m_dueDate = Text ''2024-03-20'', m_category = ''Entertainment''\<rparr>] \<and>
   e_id loan \<notin> r_id ` set (pendingReminders ''2024-03-10'' store0) \<and>
   calls_for (e_id loan) (snd (processReminders utc_env ''2024-03-10'' always_ok store0)) = 0"
proof -
  note t = due_set_exact [OF wf_store0, of "''2024-03-10''" utc_env always_ok]
  have 1: "loan \<in> set (expenses store0)" by (simp add: store0_def)
  have 2: "affinity ''2024-03-10'' < reminder_date loan"
    by (simp add: loan_def less_sql_value_def date_defs)
  have 3: "map r_id (pendingReminders ''2024-03-10'' store0) = [1, 4]"
    "map r_due_date (pendingReminders ''2024-03-10'' store0) =
       [Text ''2024-03-15'', Text ''2024-03-20'']"
    "map r_user_email (pendingReminders ''2024-03-10'' store0) =
       [''asha@example.com'', ''ben@example.com'']"
    unfolding pendingReminders_store0_10
    by (simp_all add: join_row_def rent_def films_def asha_def ben_def)
  have 4: "map (\<lambda>r. \<lparr>m_to = r_user_email r, m_userName = r_user_name r,
                      m_expenseName = r_expense_name r, m_amount = r_amount r,
                      m_dueDate = r_due_date r, m_category = r_category r\<rparr>)
             (pendingReminders ''2024-03-10'' store0) =
     [\<lparr>m_to = ''asha@example.com'', m_userName = ''Asha'', m_expenseName = ''Rent'',
       m_amount = 1000, m_dueDate = Text ''2024-03-15'', m_category = ''Bills''\<rparr>,
      \<lparr>m_to = ''ben@example.com'', m_userName = ''Ben'', m_expenseName = ''Films'',
       m_amount = 15, m_dueDate = Text ''2024-03-20'', m_category = ''Entertainment''\<rparr>]"
    unfolding pendingReminders_store0_10
    by (simp add: join_row_def rent_def films_def asha_def ben_def)
  have 5: "map (fst \<circ> snd) (snd (processReminders utc_env ''2024-03-10'' always_ok store0)) =
     [\<lparr>m_to = ''asha@example.com'', m_userName = ''Asha'', m_expenseName = ''Rent'',
       m_amount = 1000, m_dueDate = Text ''2024-03-15'', m_category = ''Bills''\<rparr>,
      \<lparr>m_to = ''ben@example.com'', m_userName = ''Ben'', m_expenseName = ''Films'',
       m_amount = 15, m_dueDate = Text ''2024-03-20'', m_category = ''Entertainment''\<rparr>]"
    using t 4 by simp
  have 6: "e_id loan \<notin> r_id ` set (pendingReminders ''2024-03-10'' store0) \<and>
      calls_for (e_id loan) (snd (processReminders utc_env ''2024-03-10'' always_ok store0)) = 0"
    using t 1 2 by blast
  show ?thesis using wf_store0 1 2 3 5 6 by blast
qed

section \<open>The diagnostic query and the due set\<close>

lemma pending_reminders_set:
  "set (pending_reminders today s) =
     {pending_row_of e u | e u. e \<in> set (expenses s) \<and> u \<in> set (users s) \<and> user_id e = u_id u \<and>
        reminder_date e \<le> affinity today \<and> email_sent e = 0 \<and> (paid e = Some 0 \<or> paid e = None)}"
  by (auto simp: pending_reminders_def owners_def)

lemma pending_join_ids:
  assumes "wf_store s" and "set es \<subseteq> set (expenses s)"
  shows "map p_id (concat (map (\<lambda>e. map (pending_row_of e) (owners s e)) es)) = map e_id es"
  using assms(2)
proof (induction es)
  case Nil
  show ?case by simp
next
  case (Cons e es)
  obtain u where "owners s e = [u]" using owners_single [OF assms(1), of e] Cons.prems by auto
  then show ?case using Cons by (simp add: pending_row_of_def)
qed

lemma pending_reminders_distinct:
  assumes "wf_store s"
  shows "distinct (map p_id (pending_reminders today s))"
proof -
  let ?es = "filter (\<lambda>e. reminder_date e \<le> affinity today \<and> email_sent e = 0 \<and>
                        (paid e = Some 0 \<or> paid e = None)) (expenses s)"
  have eq: "map p_id (concat (map (\<lambda>e. map (pending_row_of e) (owners s e)) ?es)) = map e_id ?es"
    by (rule pending_join_ids [OF assms]) simp
  have "mset (map p_id (pending_reminders today s)) =
        mset (map p_id (concat (map (\<lambda>e. map (pending_row_of e) (owners s e)) ?es)))"
    by (simp add: pending_reminders_def)
  then have "mset (map p_id (pending_reminders today s)) = mset (map e_id ?es)"
    unfolding eq .
  moreover have "distinct (map e_id ?es)"
    using assms by (simp add: wf_store_def distinct_map_filter)
  ultimately show ?thesis using mset_eq_imp_distinct_iff by blast
qed

text \<open>
  Claim C9 fails as stated: on 2024-03-11 the sweep's query selects the expenses 2, 1, 4 in
  this order, the diagnostic query the expenses 1, 2. Expense 4 is paid, and expense 1 has
  the earlier reminder date but the later due date.
\<close>

theorem pending_reminders_differs:
  "map p_id (pending_reminders ''2024-03-11'' store0) = [1, 2] \<and>
   map r_id (pendingReminders ''2024-03-11'' store0) = [2, 1, 4]"
  unfolding pending_reminders_store0_11 pendingReminders_store0_11
  by (simp add: pending_row_of_def join_row_def example_defs)

text \<open>
  Claim C9, amended. In a consistent store the diagnostic query selects exactly those
  expenses of the sweep's due set that are not paid (\<^verbatim>\<open>paid\<close> is 0 or null), each once,
  in ascending order of \<^verbatim>\<open>reminder_date\<close>.
\<close>

theorem pending_reminders_unpaid_due:
  assumes "wf_store s"
  shows "p_id ` set (pending_reminders today s) =
           {i \<in> r_id ` set (pendingReminders today s).
              \<exists>e \<in> set (expenses s). e_id e = i \<and> (paid e = Some 0 \<or> paid e = None)} \<and>
         distinct (map p_id (pending_reminders today s)) \<and>
         sorted (map p_reminder_date (pending_reminders today s))"
proof -
  have inj: "inj_on e_id (set (expenses s))"
    using assms by (simp add: wf_store_def distinct_map)
  have "p_id ` set (pending_reminders today s) =
           {i \<in> r_id ` set (pendingReminders today s).
              \<exists>e \<in> set (expenses s). e_id e = i \<and> (paid e = Some 0 \<or> paid e = None)}"
  proof (intro set_eqI iffI)
    fix i assume "i \<in> p_id ` set (pending_reminders today s)"
    then obtain e u where eu: "e \<in> set (expenses s)" "u \<in> set (users s)" "user_id e = u_id u"
        "reminder_date e \<le> affinity today" "email_sent e = 0" "paid e = Some 0 \<or> paid e = None"
        "i = e_id e"
      by (auto simp: pending_reminders_set pending_row_of_def)
    then have "join_row e u \<in> set (pendingReminders today s)"
      by (auto simp: pendingReminders_set)
    then have "i \<in> r_id ` set (pendingReminders today s)"
      using eu(7) by (force simp: join_row_def)
    then show "i \<in> {i \<in> r_id ` set (pendingReminders today s).
              \<exists>e \<in> set (expenses s). e_id e = i \<and> (paid e = Some 0 \<or> paid e = None)}"
      using eu by auto
  next
    fix i assume "i \<in> {i \<in> r_id ` set (pendingReminders today s).
              \<exists>e \<in> set (expenses s). e_id e = i \<and> (paid e = Some 0 \<or> paid e = None)}"
    then obtain e' u e where d: "e' \<in> set (expenses s)" "u \<in> set (users s)" "user_id e' = u_id u"
        "reminder_date e' \<le> affinity today" "email_sent e' = 0" "i = e_id e'"
      and e: "e \<in> set (expenses s)" "e_id e = i" "paid e = Some 0 \<or> paid e = None"
      by (auto simp: pendingReminders_set join_row_def)
    have "e = e'" using inj d(1,6) e(1,2) by (auto dest: inj_onD)
    then have "pending_row_of e' u \<in> set (pending_reminders today s)"
      using d e by (auto simp: pending_reminders_set)
    then show "i \<in> p_id ` set (pending_reminders today s)"
      using d(6) by (force simp: pending_row_of_def)
  qed
  then show ?thesis
    using pending_reminders_distinct [OF assms, of today]
    by (simp add: pending_reminders_def)
qed

theorem pending_reminders_unpaid_due_witness:
  "wf_store store0 \<and>
   p_id ` set (pending_reminders ''2024-03-11'' store0) = {1, 2} \<and>
   r_id ` set (pendingReminders ''2024-03-11'' store0) = {1, 2, 4} \<and>
   paid films = Some 1 \<and>
   map p_reminder_date (pending_reminders ''2024-03-11'' store0) = [Text ''2024-03-10'', Text ''2024-03-11'']"
proof -
  have "p_id ` set (pending_reminders ''2024-03-11'' store0) =
           {i \<in> r_id ` set (pendingReminders ''2024-03-11'' store0).
              \<exists>e \<in> set (expenses store0). e_id e = i \<and> (paid e = Some 0 \<or> paid e = None)}"
    using pending_reminders_unpaid_due [OF wf_store0, of "''2024-03-11''"] by blast
  moreover have "r_id ` set (pendingReminders ''2024-03-11'' store0) = {1, 2, 4}"
    unfolding pendingReminders_store0_11 by (auto simp: join_row_def example_defs)
  moreover have "{i \<in> {1, 2, 4}.
              \<exists>e \<in> set (expenses store0). e_id e = i \<and> (paid e = Some 0 \<or> paid e = None)} = {1, 2}"
    by (auto simp: example_defs)
  moreover have "map p_reminder_date (pending_reminders ''2024-03-11'' store0) = [Text ''2024-03-10'', Text ''2024-03-11'']"
    unfolding pending_reminders_store0_11 by (simp add: pending_row_of_def example_defs)
  ultimately show ?thesis using wf_store0 by (simp add: films_def)
qed


section \<open>A sweep in which every send succeeds\<close>

lemma processReminders_store:
  "expenses (fst (processReminders env today send s)) =
     mark_all (marked_ids (snd (processReminders env today send s))) (expenses s) @
     new_rows env (\<lambda>i. get_user_id i s) (paid_default s) (last_rowid s)
       (snd (processReminders env today send s)) \<and>
   users (fst (processReminders env today send s)) = users s \<and>
   paid_default (fst (processReminders env today send s)) = paid_default s"
proof -
  have b: "\<forall>r \<in> set (pendingReminders today s). r_id r \<le> last_rowid s"
    using pendingReminders_bound by blast
  show ?thesis
    unfolding processReminders_def process_loop_trace
    using process_loop_store [OF b, of env send 0] by blast
qed

lemma outcomes_set:
  "x \<in> set (outcomes env send k rs) \<longleftrightarrow>
     (\<exists>j < length rs. x = (rs ! j, mail_of (rs ! j),
         outcome_of env (k + j) (send (k + j) (mail_of (rs ! j)))))"
proof -
  have "x \<in> set (outcomes env send k rs) \<longleftrightarrow>
      (\<exists>j < length (outcomes env send k rs). outcomes env send k rs ! j = x)"
    by (simp add: in_set_conv_nth)
  also have "\<dots> \<longleftrightarrow> (\<exists>j < length rs. x = (rs ! j, mail_of (rs ! j),
         outcome_of env (k + j) (send (k + j) (mail_of (rs ! j)))))"
    by (auto simp: length_outcomes outcomes_nth)
  finally show ?thesis .
qed

lemma marked_ids_iff:
  "i \<in> marked_ids tr \<longleftrightarrow> (\<exists>r mail out. (r, mail, out) \<in> set tr \<and> marked out \<and> r_id r = i)"
  by (force simp: marked_ids_def)

lemma marked_ids_subset: "marked_ids (outcomes env send k rs) \<subseteq> r_id ` set rs"
  by (auto simp: marked_ids_iff outcomes_set)

lemma marked_ids_nth:
  assumes "j < length rs" and "marked (outcome_of env (k + j) (send (k + j) (mail_of (rs ! j))))"
  shows "r_id (rs ! j) \<in> marked_ids (outcomes env send k rs)"
proof -
  have "(rs ! j, mail_of (rs ! j), outcome_of env (k + j) (send (k + j) (mail_of (rs ! j))))
      \<in> set (outcomes env send k rs)"
    unfolding outcomes_set using assms(1) by blast
  then show ?thesis unfolding marked_ids_iff using assms(2) by blast
qed

lemma all_succeed_iff:
  "all_succeed send rs \<longleftrightarrow>
     (\<forall>k < length rs. \<exists>res. send k (mail_of (rs ! k)) = Returns res \<and> success res)"
proof -
  have "(case x of Throws msg \<Rightarrow> False | Returns result \<Rightarrow> success result) \<longleftrightarrow>
        (\<exists>res. x = Returns res \<and> success res)" for x :: "send_result js_result"
    by (cases x) auto
  then have "all_succeed send rs \<longleftrightarrow>
      (\<forall>k \<in> {0..<length rs}. \<exists>res. send k (mail_of (rs ! k)) = Returns res \<and> success res)"
    by (simp add: all_succeed_def list_all_iff)
  also have "\<dots> \<longleftrightarrow> (\<forall>k < length rs. \<exists>res. send k (mail_of (rs ! k)) = Returns res \<and> success res)"
    by auto
  finally show ?thesis .
qed

lemma marked_outcome_of:
  "marked (outcome_of env k x) \<longleftrightarrow> (\<exists>res. x = Returns res \<and> success res)"
  by (cases x) (auto simp: outcome_of_def split: option.splits)

lemma all_succeed_marked_ids:
  assumes "all_succeed send rs"
  shows "marked_ids (outcomes env send 0 rs) = r_id ` set rs"
proof
  show "marked_ids (outcomes env send 0 rs) \<subseteq> r_id ` set rs" by (rule marked_ids_subset)
  show "r_id ` set rs \<subseteq> marked_ids (outcomes env send 0 rs)"
  proof
    fix i assume "i \<in> r_id ` set rs"
    then obtain j where j: "j < length rs" "i = r_id (rs ! j)"
      by (auto simp: in_set_conv_nth)
    have "marked (outcome_of env (0 + j) (send (0 + j) (mail_of (rs ! j))))"
      unfolding marked_outcome_of using assms j(1) by (simp add: all_succeed_iff)
    then show "i \<in> marked_ids (outcomes env send 0 rs)"
      using marked_ids_nth [OF j(1), of env 0 send] j(2) by simp
  qed
qed

lemma count_list_distinct: "distinct xs \<Longrightarrow> count_list xs x = (if x \<in> set xs then 1 else 0)"
  by (induction xs) auto

lemma mark_all_set:
  "set (mark_all S es) = (\<lambda>e. if e_id e \<in> S then e\<lparr>email_sent := 1\<rparr> else e) ` set es"
  by (simp add: mark_all_def)

lemma map_e_id_mark_all: "map e_id (mark_all S es) = map e_id es"
  by (simp add: mark_all_def)

text \<open>The rows of the table after a sweep that carry the id of a row that was there before.\<close>

lemma rows_with_old_id:
  assumes "wf_store s" and "e \<in> set (expenses s)"
    and "e' \<in> set (expenses (fst (processReminders env today send s)))" and "e_id e' = e_id e"
  shows "e' = (if e_id e \<in> marked_ids (snd (processReminders env today send s))
               then e\<lparr>email_sent := 1\<rparr> else e)"
proof -
  let ?tr = "snd (processReminders env today send s)"
  let ?new = "new_rows env (\<lambda>i. get_user_id i s) (paid_default s) (last_rowid s) ?tr"
  have inj: "inj_on e_id (set (expenses s))"
    using assms(1) by (simp add: wf_store_def distinct_map)
  have "expenses (fst (processReminders env today send s)) =
      mark_all (marked_ids ?tr) (expenses s) @ ?new"
    using processReminders_store [of env today send s] by blast
  then have "e' \<in> set (mark_all (marked_ids ?tr) (expenses s) @ ?new)"
    using assms(3) by simp
  then have "e' \<in> set (mark_all (marked_ids ?tr) (expenses s)) \<or> e' \<in> set ?new"
    by simp
  then show ?thesis
  proof
    assume "e' \<in> set (mark_all (marked_ids ?tr) (expenses s))"
    then obtain x where x: "x \<in> set (expenses s)"
        "e' = (if e_id x \<in> marked_ids ?tr then x\<lparr>email_sent := 1\<rparr> else x)"
      by (auto simp: mark_all_set)
    then have "e_id x = e_id e" using assms(4) by (auto split: if_splits)
    then have "x = e" using inj x(1) assms(2) by (auto dest: inj_onD)
    then show ?thesis using x(2) by simp
  next
    assume "e' \<in> set ?new"
    then have "last_rowid s < e_id e'" by (rule new_rows_ids)
    moreover have "e_id e \<le> last_rowid s"
      using max_rowid_ge [OF assms(2)] by (simp add: last_rowid_def)
    ultimately show ?thesis using assms(4) by simp
  qed
qed

lemma old_row_stays:
  assumes "e \<in> set (expenses s)"
  shows "(if e_id e \<in> marked_ids (snd (processReminders env today send s))
          then e\<lparr>email_sent := 1\<rparr> else e)
         \<in> set (expenses (fst (processReminders env today send s)))"
proof -
  let ?tr = "snd (processReminders env today send s)"
  have "(if e_id e \<in> marked_ids ?tr then e\<lparr>email_sent := 1\<rparr> else e)
      \<in> set (mark_all (marked_ids ?tr) (expenses s))"
    unfolding mark_all_set using assms by (rule imageI)
  moreover have "set (mark_all (marked_ids ?tr) (expenses s))
      \<subseteq> set (expenses (fst (processReminders env today send s)))"
    using processReminders_store [of env today send s] by simp
  ultimately show ?thesis by blast
qed

lemma due_row:
  assumes "wf_store s" and "e \<in> set (expenses s)" and "reminder_date e \<le> affinity today"
    and "email_sent e = 0"
  shows "\<exists>u \<in> set (users s). u_id u = user_id e \<and> join_row e u \<in> set (pendingReminders today s)"
proof -
  obtain u where u: "u \<in> set (users s)" "user_id e = u_id u"
    using assms(1,2) by (auto simp: wf_store_def list_all_iff list_ex_iff)
  then have "e \<in> set (expenses s) \<and> u \<in> set (users s) \<and> user_id e = u_id u \<and>
      reminder_date e \<le> affinity today \<and> email_sent e = 0"
    using assms by simp
  then have "join_row e u \<in> set (pendingReminders today s)"
    unfolding pendingReminders_set by blast
  then show ?thesis using u by auto
qed

lemma due_row_id:
  assumes "wf_store s" and "e \<in> set (expenses s)" and "reminder_date e \<le> affinity today"
    and "email_sent e = 0"
  shows "e_id e \<in> r_id ` set (pendingReminders today s)"
proof -
  obtain u where "join_row e u \<in> set (pendingReminders today s)"
    using due_row [OF assms] by blast
  then have "r_id (join_row e u) \<in> r_id ` set (pendingReminders today s)" by (rule imageI)
  then show ?thesis by (simp add: join_row_def)
qed

text \<open>The call of the notifier for a row of the query, as the trace records it.\<close>

lemma call_of_row:
  assumes "r \<in> set (pendingReminders today s)"
  shows "\<exists>k < length (snd (processReminders env today send s)).
           snd (processReminders env today send s) ! k =
             (r, mail_of r, outcome_of env k (send k (mail_of r))) \<and>
           pendingReminders today s ! k = r"
proof -
  obtain k where k: "k < length (pendingReminders today s)" "pendingReminders today s ! k = r"
    using assms by (auto simp: in_set_conv_nth)
  have "outcomes env send 0 (pendingReminders today s) ! k =
      (r, mail_of r, outcome_of env k (send k (mail_of r)))"
    using outcomes_nth [OF k(1), of env send 0] k(2) by simp
  then show ?thesis
    using k by (auto simp: processReminders_trace length_outcomes)
qed

lemma sweep_marks:
  assumes "wf_store s" and "all_succeed send (pendingReminders today s)"
    and "e \<in> set (expenses s)" and "reminder_date e \<le> affinity today" and "email_sent e = 0"
  shows "e\<lparr>email_sent := 1\<rparr> \<in> set (expenses (fst (processReminders env today send s)))"
    and "\<forall>e' \<in> set (expenses (fst (processReminders env today send s))).
           e_id e' = e_id e \<longrightarrow> e' = e\<lparr>email_sent := 1\<rparr>"
    and "calls_for (e_id e) (snd (processReminders env today send s)) = 1"
proof -
  have due: "e_id e \<in> r_id ` set (pendingReminders today s)"
    using assms(1,3-5) by (rule due_row_id)
  have sent: "e_id e \<in> marked_ids (snd (processReminders env today send s))"
    using due all_succeed_marked_ids [OF assms(2), of env] by (simp add: processReminders_trace)
  show "e\<lparr>email_sent := 1\<rparr> \<in> set (expenses (fst (processReminders env today send s)))"
    using old_row_stays [OF assms(3), of env today send] sent by simp
  show "\<forall>e' \<in> set (expenses (fst (processReminders env today send s))).
           e_id e' = e_id e \<longrightarrow> e' = e\<lparr>email_sent := 1\<rparr>"
  proof (intro ballI impI)
    fix e'
    assume "e' \<in> set (expenses (fst (processReminders env today send s)))" "e_id e' = e_id e"
    then have "e' = (if e_id e \<in> marked_ids (snd (processReminders env today send s))
               then e\<lparr>email_sent := 1\<rparr> else e)"
      by (rule rows_with_old_id [OF assms(1,3)])
    then show "e' = e\<lparr>email_sent := 1\<rparr>" using sent by simp
  qed
  show "calls_for (e_id e) (snd (processReminders env today send s)) = 1"
    using due pendingReminders_distinct [OF assms(1), of today]
    by (simp add: processReminders_trace calls_for_trace count_list_distinct)
qed

lemma sweep_call:
  assumes "wf_store s" and "all_succeed send (pendingReminders today s)"
    and "e \<in> set (expenses s)" and "reminder_date e \<le> affinity today" and "email_sent e = 0"
  shows "\<exists>u \<in> set (users s). \<exists>k < length (snd (processReminders env today send s)).
           \<exists>result out.
             u_id u = user_id e \<and>
             snd (processReminders env today send s) ! k =
               (\<lparr>r_id = e_id e, r_expense_name = expense_name e, r_amount = amount e,
                 r_category = category e, r_due_date = due_date e,
                 r_reminder_date = reminder_date e, r_recurring = recurring e,
                 r_user_name = u_name u, r_user_email = u_email u\<rparr>,
                \<lparr>m_to = u_email u, m_userName = u_name u, m_expenseName = expense_name e,
                 m_amount = amount e, m_dueDate = due_date e, m_category = category e\<rparr>,
                out) \<and>
             send k \<lparr>m_to = u_email u, m_userName = u_name u, m_expenseName = expense_name e,
                 m_amount = amount e, m_dueDate = due_date e, m_category = category e\<rparr> =
               Returns result \<and>
             success result"
proof -
  obtain u where u: "u \<in> set (users s)" "u_id u = user_id e"
      "join_row e u \<in> set (pendingReminders today s)"
    using due_row [OF assms(1,3-5)] by blast
  obtain k where k: "k < length (snd (processReminders env today send s))"
      "snd (processReminders env today send s) ! k =
         (join_row e u, mail_of (join_row e u),
          outcome_of env k (send k (mail_of (join_row e u))))"
      "pendingReminders today s ! k = join_row e u"
    using call_of_row [OF u(3), of env send] by blast
  have "k < length (pendingReminders today s)"
    using k(1) by (simp add: processReminders_trace length_outcomes)
  then obtain result where res: "send k (mail_of (join_row e u)) = Returns result" "success result"
    using assms(2) k(3) unfolding all_succeed_iff by metis
  have mail: "mail_of (join_row e u) =
      \<lparr>m_to = u_email u, m_userName = u_name u, m_expenseName = expense_name e,
       m_amount = amount e, m_dueDate = due_date e, m_category = category e\<rparr>"
    by (simp add: mail_of_def join_row_def)
  have row: "join_row e u =
      \<lparr>r_id = e_id e, r_expense_name = expense_name e, r_amount = amount e,
       r_category = category e, r_due_date = due_date e,
       r_reminder_date = reminder_date e, r_recurring = recurring e,
       r_user_name = u_name u, r_user_email = u_email u\<rparr>"
    by (simp add: join_row_def)
  note call = k(2) [unfolded mail]
  note call' = call [unfolded row]
  note res' = res [unfolded mail]
  let ?tr = "snd (processReminders env today send s)"
  let ?row = "\<lparr>r_id = e_id e, r_expense_name = expense_name e, r_amount = amount e,
       r_category = category e, r_due_date = due_date e,
       r_reminder_date = reminder_date e, r_recurring = recurring e,
       r_user_name = u_name u, r_user_email = u_email u\<rparr>"
  let ?mail = "\<lparr>m_to = u_email u, m_userName = u_name u, m_expenseName = expense_name e,
       m_amount = amount e, m_dueDate = due_date e, m_category = category e\<rparr>"
  have "u_id u = user_id e \<and> ?tr ! k = (?row, ?mail, outcome_of env k (send k ?mail)) \<and>
      send k ?mail = Returns result \<and> success result"
    using u(2) call' res' by simp
  then have "\<exists>result out. u_id u = user_id e \<and> ?tr ! k = (?row, ?mail, out) \<and>
      send k ?mail = Returns result \<and> success result"
    by blast
  then have "\<exists>k < length ?tr. \<exists>result out. u_id u = user_id e \<and>
      ?tr ! k = (?row, ?mail, out) \<and> send k ?mail = Returns result \<and> success result"
    using k(1) by blast
  then show ?thesis using u(1) by (rule bexI [of _ u])
qed

text \<open>
  Claim C1. In a consistent store, let an expense have \<^verbatim>\<open>reminder_date <= today\<close> (as the
  query compares) and \<^verbatim>\<open>email_sent = 0\<close>. After one sweep in which every notifier call
  succeeds, the table holds this expense with \<^verbatim>\<open>email_sent = 1\<close> and nothing else changed,
  no other row has its id, and exactly one call of \<^verbatim>\<open>sendReminderEmail\<close> was made for it:
  the call for its row of the query, with the email and the name of its owner and its own
  name, amount, due date and category, and that call answered with success. This holds in
  every environment, also when the write of the database file fails: the \<^verbatim>\<open>UPDATE\<close> has
  then taken effect in the database that the queries read.
\<close>

theorem sweep_notifies_once:
  assumes "wf_store s" and "all_succeed send (pendingReminders today s)"
    and "e \<in> set (expenses s)" and "reminder_date e \<le> affinity today" and "email_sent e = 0"
  shows "e\<lparr>email_sent := 1\<rparr> \<in> set (expenses (fst (processReminders env today send s))) \<and>
         (\<forall>e' \<in> set (expenses (fst (processReminders env today send s))).
            e_id e' = e_id e \<longrightarrow> e' = e\<lparr>email_sent := 1\<rparr>) \<and>
         calls_for (e_id e) (snd (processReminders env today send s)) = 1 \<and>
         (\<exists>u \<in> set (users s). \<exists>k < length (snd (processReminders env today send s)).
           \<exists>result out.
             u_id u = user_id e \<and>
             snd (processReminders env today send s) ! k =
               (\<lparr>r_id = e_id e, r_expense_name = expense_name e, r_amount = amount e,
                 r_category = category e, r_due_date = due_date e,
                 r_reminder_date = reminder_date e, r_recurring = recurring e,
                 r_user_name = u_name u, r_user_email = u_email u\<rparr>,
                \<lparr>m_to = u_email u, m_userName = u_name u, m_expenseName = expense_name e,
                 m_amount = amount e, m_dueDate = due_date e, m_category = category e\<rparr>,
                out) \<and>
             send k \<lparr>m_to = u_email u, m_userName = u_name u, m_expenseName = expense_name e,
                 m_amount = amount e, m_dueDate = due_date e, m_category = category e\<rparr> =
               Returns result \<and>
             success result)"
  using sweep_marks [OF assms, of env] sweep_call [OF assms, of env] by (intro conjI)

lemma all_succeed_always_ok: "all_succeed always_ok rs"
  by (simp add: all_succeed_iff always_ok_def)

lemma trace_store0_always_ok:
  "snd (processReminders env ''2024-03-10'' always_ok store0) =
     [(join_row rent asha,
       \<lparr>m_to = ''asha@example.com'', m_userName = ''Asha'', m_expenseName = ''Rent'',
        m_amount = 1000, m_dueDate = Text ''2024-03-15'', m_category = ''Bills''\<rparr>,
       outcome_of env 0 (always_ok 0 (mail_of (join_row rent asha)))),
      (join_row films ben,
       \<lparr>m_to = ''ben@example.com'', m_userName = ''Ben'', m_expenseName = ''Films'',
        m_amount = 15, m_dueDate = Text ''2024-03-20'', m_category = ''Entertainment''\<rparr>,
       outcome_of env 1 (always_ok 1 (mail_of (join_row films ben))))]"
  unfolding processReminders_trace pendingReminders_store0_10
  by (simp add: mail_of_def join_row_def rent_def films_def asha_def ben_def)

theorem sweep_notifies_once_witness:
  "wf_store store0 \<and> all_succeed always_ok (pendingReminders ''2024-03-10'' store0) \<and>
   rent \<in> set (expenses store0) \<and> reminder_date rent \<le> affinity ''2024-03-10'' \<and>
   email_sent rent = 0 \<and>
   rent\<lparr>email_sent := 1\<rparr>
     \<in> set (expenses (fst (processReminders disk_full_env ''2024-03-10'' always_ok store0))) \<and>
   calls_for (e_id rent) (snd (processReminders disk_full_env ''2024-03-10'' always_ok store0)) = 1 \<and>
   snd (processReminders disk_full_env ''2024-03-10'' always_ok store0) ! 0 =
     (join_row rent asha,
      \<lparr>m_to = ''asha@example.com'', m_userName = ''Asha'', m_expenseName = ''Rent'',
       m_amount = 1000, m_dueDate = Text ''2024-03-15'', m_category = ''Bills''\<rparr>,
      Update_threw ''ENOSPC: no space left on device, write'')"
proof -
  have 1: "rent \<in> set (expenses store0)" by (simp add: store0_def)
  have 2: "reminder_date rent \<le> affinity ''2024-03-10''" "email_sent rent = 0"
    by (simp_all add: rent_def less_eq_sql_value_def date_defs)
  have 3: "snd (processReminders disk_full_env ''2024-03-10'' always_ok store0) ! 0 =
     (join_row rent asha,
      \<lparr>m_to = ''asha@example.com'', m_userName = ''Asha'', m_expenseName = ''Rent'',
       m_amount = 1000, m_dueDate = Text ''2024-03-15'', m_category = ''Bills''\<rparr>,
      Update_threw ''ENOSPC: no space left on device, write'')"
    unfolding trace_store0_always_ok
    by (simp add: outcome_of_def always_ok_def disk_full_env_def utc_env_def)
  show ?thesis
    using sweep_notifies_once [OF wf_store0 all_succeed_always_ok 1 2, of disk_full_env]
      wf_store0 all_succeed_always_ok 1 2 3 by blast
qed

section \<open>The store stays consistent\<close>

lemma new_rows_distinct: "distinct (map e_id (new_rows env f pd n tr))"
proof (induction tr arbitrary: n)
  case Nil
  show ?case by simp
next
  case (Cons x tr)
  obtain r mail out where x: "x = (r, mail, out)" by (cases x)
  show ?case
  proof (cases "out = Sent \<and> r_recurring r = ''yes''")
    case False
    then show ?thesis using Cons x by auto
  next
    case True
    show ?thesis
    proof (cases "successor_row env f pd (Suc n) r")
      case None
      then show ?thesis using Cons x True by auto
    next
      case (Some e)
      have "e_id e = Suc n" using successor_row_id [OF Some] .
      moreover have "\<forall>e' \<in> set (new_rows env f pd (Suc n) tr). Suc n < e_id e'"
        using new_rows_ids by blast
      ultimately have "e_id e \<notin> e_id ` set (new_rows env f pd (Suc n) tr)" by auto
      then show ?thesis using Cons.IH [of "Suc n"] x True Some by simp
    qed
  qed
qed

lemma successor_row_owner: "successor_row env f pd n r = Some e \<Longrightarrow> f (r_id r) = Some (user_id e)"
  by (auto simp: successor_row_def split: option.splits)

lemma new_rows_owner: "e \<in> set (new_rows env f pd n tr) \<Longrightarrow> \<exists>i. f i = Some (user_id e)"
proof (induction tr arbitrary: n)
  case Nil
  then show ?case by simp
next
  case (Cons x tr)
  obtain r mail out where x: "x = (r, mail, out)" by (cases x)
  show ?case
  proof (cases "out = Sent \<and> r_recurring r = ''yes''")
    case False
    then show ?thesis using Cons x by auto
  next
    case True
    show ?thesis
    proof (cases "successor_row env f pd (Suc n) r")
      case None
      then show ?thesis using Cons x True by auto
    next
      case (Some e0)
      then have "e = e0 \<or> e \<in> set (new_rows env f pd (Suc n) tr)"
        using Cons.prems x True by auto
      then show ?thesis
      proof
        assume "e = e0"
        then show ?thesis using successor_row_owner [OF Some] by blast
      next
        assume "e \<in> set (new_rows env f pd (Suc n) tr)"
        then show ?thesis by (rule Cons.IH)
      qed
    qed
  qed
qed

lemma get_user_id_Some:
  assumes "get_user_id i s = Some uid"
  shows "\<exists>e \<in> set (expenses s). e_id e = i \<and> user_id e = uid"
proof -
  obtain e where "find (\<lambda>e. e_id e = i) (expenses s) = Some e" "user_id e = uid"
    using assms by (auto simp: get_user_id_def)
  then show ?thesis by (auto simp: find_Some_iff)
qed

lemma get_user_id_of_row:
  assumes "distinct (map e_id (expenses s))" and "e \<in> set (expenses s)"
  shows "get_user_id (e_id e) s = Some (user_id e)"
proof -
  have inj: "inj_on e_id (set (expenses s))" using assms(1) by (simp add: distinct_map)
  have "find (\<lambda>x. e_id x = e_id e) (expenses s) \<noteq> None"
    using assms(2) by (auto simp: find_None_iff)
  then obtain x where x: "find (\<lambda>x. e_id x = e_id e) (expenses s) = Some x" by auto
  then have "x \<in> set (expenses s)" "e_id x = e_id e" by (auto simp: find_Some_iff)
  then have "x = e" using inj assms(2) by (auto dest: inj_onD)
  then show ?thesis using x by (simp add: get_user_id_def)
qed

lemma wf_processReminders:
  assumes "wf_store s"
  shows "wf_store (fst (processReminders env today send s))"
proof -
  let ?s' = "fst (processReminders env today send s)"
  let ?tr = "snd (processReminders env today send s)"
  let ?new = "new_rows env (\<lambda>i. get_user_id i s) (paid_default s) (last_rowid s) ?tr"
  have ex: "expenses ?s' = mark_all (marked_ids ?tr) (expenses s) @ ?new" and us: "users ?s' = users s"
    using processReminders_store [of env today send s] by blast+
  have disj: "set (map e_id (expenses s)) \<inter> set (map e_id ?new) = {}"
  proof (rule ccontr)
    assume "set (map e_id (expenses s)) \<inter> set (map e_id ?new) \<noteq> {}"
    then obtain i where "i \<in> set (map e_id (expenses s))" "i \<in> set (map e_id ?new)" by blast
    then obtain x e where x: "x \<in> set (expenses s)" "e_id x = i"
      and e: "e \<in> set ?new" "e_id e = i" by auto
    have "e_id x \<le> last_rowid s"
      using max_rowid_ge [OF x(1)] by (simp add: last_rowid_def)
    moreover have "last_rowid s < e_id e" using e(1) by (rule new_rows_ids)
    ultimately show False using x(2) e(2) by simp
  qed
  have d: "distinct (map e_id (expenses ?s'))"
    unfolding ex using assms disj
      new_rows_distinct [of env "\<lambda>i. get_user_id i s" "paid_default s" "last_rowid s" ?tr]
    by (simp add: wf_store_def map_e_id_mark_all)
  have fk_old: "\<forall>e \<in> set (expenses s). \<exists>u \<in> set (users s). user_id e = u_id u"
    using assms by (auto simp: wf_store_def list_all_iff list_ex_iff)
  have fk: "\<forall>e \<in> set (expenses ?s'). \<exists>u \<in> set (users s). user_id e = u_id u"
  proof
    fix e assume "e \<in> set (expenses ?s')"
    then have "e \<in> set (mark_all (marked_ids ?tr) (expenses s)) \<or> e \<in> set ?new"
      unfolding ex by simp
    then show "\<exists>u \<in> set (users s). user_id e = u_id u"
    proof
      assume "e \<in> set (mark_all (marked_ids ?tr) (expenses s))"
      then obtain x where "x \<in> set (expenses s)" "user_id e = user_id x"
        by (auto simp: mark_all_set split: if_splits)
      then show ?thesis using fk_old by auto
    next
      assume "e \<in> set ?new"
      then obtain i where "get_user_id i s = Some (user_id e)"
        using new_rows_owner [of e env "\<lambda>i. get_user_id i s"] by blast
      then obtain x where "x \<in> set (expenses s)" "user_id x = user_id e"
        using get_user_id_Some by blast
      then show ?thesis using fk_old by metis
    qed
  qed
  show ?thesis
    using d fk assms us by (simp add: wf_store_def list_all_iff list_ex_iff)
qed

section \<open>A second sweep\<close>

lemma due_rows_unsent:
  assumes "i \<in> r_id ` set (pendingReminders today s)"
  shows "\<exists>e \<in> set (expenses s). e_id e = i \<and> reminder_date e \<le> affinity today \<and> email_sent e = 0"
  using assms by (auto simp: pendingReminders_set join_row_def)

text \<open>
  Claim C3. After a first sweep over a consistent store in which every send succeeded, the
  due set of a second sweep (on any date, with no change of the data in between) has no
  item of the first sweep's due set; and over both sweeps at most one notifier call is
  made for any expense.
\<close>

theorem second_sweep_skips_sent:
  assumes "wf_store s" and "all_succeed send (pendingReminders today s)"
  shows "r_id ` set (pendingReminders today2 (fst (processReminders env today send s))) \<inter>
           r_id ` set (pendingReminders today s) = {} \<and>
         (\<forall>i. calls_for i (snd (processReminders env today send s)) +
                calls_for i (snd (processReminders env2 today2 send2 (fst (processReminders env today send s))))
              \<le> 1)"
proof -
  let ?s1 = "fst (processReminders env today send s)"
  have disj: "r_id ` set (pendingReminders today2 ?s1) \<inter> r_id ` set (pendingReminders today s) = {}"
  proof (rule ccontr)
    assume "r_id ` set (pendingReminders today2 ?s1) \<inter> r_id ` set (pendingReminders today s) \<noteq> {}"
    then obtain i where i2: "i \<in> r_id ` set (pendingReminders today2 ?s1)"
      and i1: "i \<in> r_id ` set (pendingReminders today s)" by blast
    obtain e where e: "e \<in> set (expenses s)" "e_id e = i" "reminder_date e \<le> affinity today" "email_sent e = 0"
      using due_rows_unsent [OF i1] by blast
    obtain e' where e': "e' \<in> set (expenses ?s1)" "e_id e' = i" "email_sent e' = 0"
      using due_rows_unsent [OF i2] by blast
    have "e' = e\<lparr>email_sent := 1\<rparr>"
      using sweep_marks(2) [OF assms e(1,3,4), of env] e'(1,2) e(2) by metis
    then show False using e'(3) by simp
  qed
  have d1: "distinct (map r_id (pendingReminders today s))"
    using assms(1) by (rule pendingReminders_distinct)
  have d2: "distinct (map r_id (pendingReminders today2 ?s1))"
    using wf_processReminders [OF assms(1)] by (rule pendingReminders_distinct)
  have "calls_for i (snd (processReminders env today send s)) +
        calls_for i (snd (processReminders env2 today2 send2 ?s1)) \<le> 1" for i
    using disj d1 d2
    by (auto simp: processReminders_trace calls_for_trace count_list_distinct)
  then show ?thesis using disj by blast
qed

theorem second_sweep_skips_sent_witness:
  "wf_store store0 \<and> all_succeed always_ok (pendingReminders ''2024-03-10'' store0) \<and>
   r_id ` set (pendingReminders ''2024-03-10'' store0) = {1, 4} \<and>
   r_id ` set (pendingReminders ''2024-03-10'' (fst (processReminders utc_env ''2024-03-10'' always_ok store0))) \<inter>
     {1, 4} = {} \<and>
   calls_for 1 (snd (processReminders utc_env ''2024-03-10'' always_ok store0)) +
     calls_for 1 (snd (processReminders utc_env ''2024-03-10'' always_ok
        (fst (processReminders utc_env ''2024-03-10'' always_ok store0)))) \<le> 1"
proof -
  have ids: "r_id ` set (pendingReminders ''2024-03-10'' store0) = {1, 4}"
    unfolding pendingReminders_store0_10 by (auto simp: join_row_def rent_def films_def)
  show ?thesis
    using second_sweep_skips_sent [OF wf_store0 all_succeed_always_ok, where env = utc_env and ?env2.0 = utc_env
        and today = "''2024-03-10''" and ?today2.0 = "''2024-03-10''" and ?send2.0 = always_ok]
      wf_store0 all_succeed_always_ok ids by simp
qed

section \<open>Failures inside a sweep\<close>

subsection \<open>The inserted rows\<close>

lemma new_rows_length:
  "length (new_rows env f pd n tr) \<le>
     length (filter (\<lambda>x. snd (snd x) = Sent \<and> r_recurring (fst x) = ''yes'') tr)"
proof (induction tr arbitrary: n)
  case Nil
  show ?case by simp
next
  case (Cons x tr)
  obtain r mail out where x: "x = (r, mail, out)" by (cases x)
  show ?case
    using Cons.IH [of n] Cons.IH [of "Suc n"] x
    by (auto split: option.splits intro: le_SucI)
qed

lemma new_rows_from_sent:
  "e \<in> set (new_rows env f pd n tr) \<Longrightarrow>
   \<exists>r mail m. (r, mail, Sent) \<in> set tr \<and> r_recurring r = ''yes'' \<and>
     successor_row env f pd m r = Some e"
proof (induction tr arbitrary: n)
  case Nil
  then show ?case by simp
next
  case (Cons x tr)
  obtain r mail out where x: "x = (r, mail, out)" by (cases x)
  show ?case
  proof (cases "out = Sent \<and> r_recurring r = ''yes''")
    case False
    then have "e \<in> set (new_rows env f pd n tr)" using Cons.prems x by auto
    then show ?thesis using Cons.IH by fastforce
  next
    case True
    show ?thesis
    proof (cases "successor_row env f pd (Suc n) r")
      case None
      then have "e \<in> set (new_rows env f pd n tr)" using Cons.prems x True by auto
      then show ?thesis using Cons.IH by fastforce
    next
      case (Some e0)
      then have "e = e0 \<or> e \<in> set (new_rows env f pd (Suc n) tr)"
        using Cons.prems x True by auto
      then show ?thesis
      proof
        assume "e = e0"
        then have "(r, mail, Sent) \<in> set (x # tr) \<and> r_recurring r = ''yes'' \<and>
                   successor_row env f pd (Suc n) r = Some e"
          using x True Some by simp
        then show ?thesis by blast
      next
        assume "e \<in> set (new_rows env f pd (Suc n) tr)"
        then show ?thesis using Cons.IH by fastforce
      qed
    qed
  qed
qed

lemma successor_row_renumber:
  "successor_row env f pd m r = Some e \<Longrightarrow> successor_row env f pd n r = Some (e\<lparr>e_id := n\<rparr>)"
  by (auto simp: successor_row_def split: option.splits)

lemma new_rows_member:
  assumes "(r, mail, Sent) \<in> set tr" and "r_recurring r = ''yes''"
    and "successor_row env f pd m r = Some e0"
  shows "\<exists>e \<in> set (new_rows env f pd n tr). e = e0\<lparr>e_id := e_id e\<rparr>"
  using assms(1)
proof (induction tr arbitrary: n)
  case Nil
  then show ?case by simp
next
  case (Cons x tr)
  obtain r' mail' out where x: "x = (r', mail', out)" by (cases x)
  have later: "\<exists>e \<in> set (new_rows env f pd n (x # tr)). e = e0\<lparr>e_id := e_id e\<rparr>"
    if "(r, mail, Sent) \<in> set tr"
  proof -
    have ih: "\<exists>e \<in> set (new_rows env f pd k tr). e = e0\<lparr>e_id := e_id e\<rparr>" for k
      using Cons.IH that by blast
    show ?thesis
      using ih [of n] ih [of "Suc n"] x by (auto split: option.splits)
  qed
  show ?case
  proof (cases "(r, mail, Sent) \<in> set tr")
    case True
    then show ?thesis by (rule later)
  next
    case False
    then have eq: "r' = r" "out = Sent" using Cons.prems x by auto
    have "successor_row env f pd (Suc n) r = Some (e0\<lparr>e_id := Suc n\<rparr>)"
      using assms(3) by (rule successor_row_renumber)
    then show ?thesis using x eq assms(2) by simp
  qed
qed

lemma successor_row_fields:
  assumes "successor_row env f pd n r = Some e"
  shows "f (r_id r) = Some (user_id e) \<and> expense_name e = r_expense_name r \<and>
         amount e = r_amount r \<and> category e = r_category r \<and> recurring e = ''yes'' \<and>
         email_sent e = 0 \<and> paid e = pd \<and> paid_at e = None \<and>
         map_option affinity (next_month_date env (r_due_date r)) = Some (due_date e) \<and>
         map_option affinity (next_month_date env (r_reminder_date r)) = Some (reminder_date e)"
  using assms by (auto simp: successor_row_def split: option.splits)

lemma next_month_date_None: "next_month_date env v = None \<longleftrightarrow> new_Date env v = None"
  by (cases "new_Date env v")
    (auto simp: next_month_date_def toISOString_date_def split: prod.splits)

lemma processReminders_new_rows:
  "drop (length (expenses s)) (expenses (fst (processReminders env today send s))) =
     new_rows env (\<lambda>i. get_user_id i s) (paid_default s) (last_rowid s)
       (snd (processReminders env today send s))"
proof -
  have "length (mark_all (marked_ids (snd (processReminders env today send s))) (expenses s)) =
        length (expenses s)"
    by (simp add: mark_all_def)
  then show ?thesis using processReminders_store [of env today send s] by simp
qed

lemma processReminders_old_rows:
  assumes "j < length (expenses s)"
  shows "expenses (fst (processReminders env today send s)) ! j =
           (if e_id (expenses s ! j) \<in> marked_ids (snd (processReminders env today send s))
            then (expenses s ! j)\<lparr>email_sent := 1\<rparr> else expenses s ! j)"
proof -
  let ?S = "marked_ids (snd (processReminders env today send s))"
  have "expenses (fst (processReminders env today send s)) ! j = mark_all ?S (expenses s) ! j"
    using processReminders_store [of env today send s] assms
    by (simp add: nth_append mark_all_def)
  then show ?thesis using assms by (simp add: mark_all_def)
qed

lemma old_id_stays:
  assumes "e \<in> set (expenses s)"
  shows "\<exists>e' \<in> set (expenses (fst (processReminders env today send s))). e_id e' = e_id e"
proof
  show "(if e_id e \<in> marked_ids (snd (processReminders env today send s))
          then e\<lparr>email_sent := 1\<rparr> else e)
        \<in> set (expenses (fst (processReminders env today send s)))"
    using assms by (rule old_row_stays)
  show "e_id (if e_id e \<in> marked_ids (snd (processReminders env today send s))
          then e\<lparr>email_sent := 1\<rparr> else e) = e_id e"
    by simp
qed

lemma marked_item_index:
  assumes "i \<in> marked_ids (outcomes env send k rs)"
  shows "\<exists>j < length rs. r_id (rs ! j) = i \<and>
           marked (outcome_of env (k + j) (send (k + j) (mail_of (rs ! j))))"
proof -
  obtain r mail out where "(r, mail, out) \<in> set (outcomes env send k rs)" "marked out" "r_id r = i"
    using assms unfolding marked_ids_iff by blast
  then show ?thesis unfolding outcomes_set by auto
qed

lemma processReminders_nth:
  assumes "j < length (pendingReminders today s)"
  shows "snd (processReminders env today send s) ! j =
           (pendingReminders today s ! j, mail_of (pendingReminders today s ! j),
            outcome_of env j (send j (mail_of (pendingReminders today s ! j))))"
  using outcomes_nth [OF assms, of env send 0] by (simp add: processReminders_trace)

lemma marked_of_index:
  assumes "wf_store s" and "j < length (pendingReminders today s)"
  shows "r_id (pendingReminders today s ! j) \<in> marked_ids (snd (processReminders env today send s))
         \<longleftrightarrow> marked (outcome_of env j (send j (mail_of (pendingReminders today s ! j))))"
proof
  let ?rs = "pendingReminders today s"
  have dist: "distinct (map r_id ?rs)" using assms(1) by (rule pendingReminders_distinct)
  assume "r_id (?rs ! j) \<in> marked_ids (snd (processReminders env today send s))"
  then obtain j' where j': "j' < length ?rs" "r_id (?rs ! j') = r_id (?rs ! j)"
      "marked (outcome_of env (0 + j') (send (0 + j') (mail_of (?rs ! j'))))"
    unfolding processReminders_trace using marked_item_index by blast
  have "map r_id ?rs ! j' = map r_id ?rs ! j" using j'(1,2) assms(2) by simp
  moreover have "j' < length (map r_id ?rs)" "j < length (map r_id ?rs)"
    using j'(1) assms(2) by simp_all
  ultimately have "j' = j" using dist nth_eq_iff_index_eq by blast
  then show "marked (outcome_of env j (send j (mail_of (?rs ! j))))" using j'(3) by simp
next
  let ?rs = "pendingReminders today s"
  assume "marked (outcome_of env j (send j (mail_of (?rs ! j))))"
  then have "marked (outcome_of env (0 + j) (send (0 + j) (mail_of (?rs ! j))))" by simp
  then show "r_id (?rs ! j) \<in> marked_ids (snd (processReminders env today send s))"
    unfolding processReminders_trace using assms(2) by (rule marked_ids_nth [rotated])
qed

text \<open>The flag of the expense of an item after the sweep.\<close>

lemma flag_of_item:
  assumes "wf_store s" and "j < length (pendingReminders today s)"
  shows "\<exists>e \<in> set (expenses (fst (processReminders env today send s))).
           e_id e = r_id (pendingReminders today s ! j)"
    and "\<forall>e \<in> set (expenses (fst (processReminders env today send s))).
           e_id e = r_id (pendingReminders today s ! j) \<longrightarrow>
           email_sent e =
             (if marked (outcome_of env j (send j (mail_of (pendingReminders today s ! j))))
              then 1 else 0)"
proof -
  let ?rs = "pendingReminders today s"
  let ?s' = "fst (processReminders env today send s)"
  let ?tr = "snd (processReminders env today send s)"
  have "r_id (?rs ! j) \<in> r_id ` set ?rs" using assms(2) by simp
  then obtain x where x: "x \<in> set (expenses s)" "e_id x = r_id (?rs ! j)" "email_sent x = 0"
    using due_rows_unsent by blast
  show "\<exists>e \<in> set (expenses ?s'). e_id e = r_id (?rs ! j)"
    using old_id_stays [OF x(1), of env today send] x(2) by simp
  show "\<forall>e \<in> set (expenses ?s'). e_id e = r_id (?rs ! j) \<longrightarrow>
      email_sent e = (if marked (outcome_of env j (send j (mail_of (?rs ! j)))) then 1 else 0)"
  proof (intro ballI impI)
    fix e assume "e \<in> set (expenses ?s')" "e_id e = r_id (?rs ! j)"
    then have "e = (if e_id x \<in> marked_ids ?tr then x\<lparr>email_sent := 1\<rparr> else x)"
      using rows_with_old_id [OF assms(1) x(1), of e env today send] x(2) by simp
    then show "email_sent e =
        (if marked (outcome_of env j (send j (mail_of (?rs ! j)))) then 1 else 0)"
      using marked_of_index [OF assms, of env send] x(2,3) by simp
  qed
qed

subsection \<open>An item that is not sent\<close>

lemma sweep_store0_fails_first:
  "processReminders utc_env ''2024-03-10'' fails_first store0 =
     (store0\<lparr>expenses := [rent, gym, loan, films\<lparr>email_sent := 1\<rparr>,
        \<lparr>e_id = 5, user_id = 2, expense_name = ''Films'', amount = 15,
         category = ''Entertainment'', due_date = Text ''2024-04-20'',
         reminder_date = Text ''2024-04-01'',
         recurring = ''yes'', email_sent = 0, paid = Some 0, paid_at = None\<rparr>], seq := 5\<rparr>,
      [(join_row rent asha, mail_of (join_row rent asha), SendFailed),
       (join_row films ben, mail_of (join_row films ben), Sent)])"
  unfolding processReminders_def pendingReminders_store0_10
  by (simp add: process_item_def fails_first_def mark_sent_def run_def
      createNextRecurringExpense_def get_user_id_def insert_expense_def last_rowid_def
      max_rowid_def join_row_def mail_of_def example_defs utc_env_def date_defs)

lemma sweep_store0_throws_first:
  "processReminders utc_env ''2024-03-10'' throws_first store0 =
     (store0\<lparr>expenses := [rent, gym, loan, films\<lparr>email_sent := 1\<rparr>,
        \<lparr>e_id = 5, user_id = 2, expense_name = ''Films'', amount = 15,
         category = ''Entertainment'', due_date = Text ''2024-04-20'',
         reminder_date = Text ''2024-04-01'',
         recurring = ''yes'', email_sent = 0, paid = Some 0, paid_at = None\<rparr>], seq := 5\<rparr>,
      [(join_row rent asha, mail_of (join_row rent asha), Send_threw ''socket hang up''),
       (join_row films ben, mail_of (join_row films ben), Sent)])"
  unfolding processReminders_def pendingReminders_store0_10
  by (simp add: process_item_def throws_first_def mark_sent_def run_def
      createNextRecurringExpense_def get_user_id_def insert_expense_def last_rowid_def
      max_rowid_def join_row_def mail_of_def example_defs utc_env_def date_defs)

lemma sweep_store0_disk_full:
  "processReminders disk_full_env ''2024-03-10'' always_ok store0 =
     (store0\<lparr>expenses := [rent\<lparr>email_sent := 1\<rparr>, gym, loan, films\<lparr>email_sent := 1\<rparr>,
        \<lparr>e_id = 5, user_id = 2, expense_name = ''Films'', amount = 15,
         category = ''Entertainment'', due_date = Text ''2024-04-20'',
         reminder_date = Text ''2024-04-01'',
         recurring = ''yes'', email_sent = 0, paid = Some 0, paid_at = None\<rparr>], seq := 5\<rparr>,
      [(join_row rent asha, mail_of (join_row rent asha),
        Update_threw ''ENOSPC: no space left on device, write''),
       (join_row films ben, mail_of (join_row films ben), Sent)])"
  unfolding processReminders_def pendingReminders_store0_10
  by (simp add: process_item_def always_ok_def mark_sent_def run_def
      createNextRecurringExpense_def get_user_id_def insert_expense_def last_rowid_def
      max_rowid_def join_row_def mail_of_def example_defs disk_full_env_def utc_env_def
      date_defs)

text \<open>
  Claim C5 fails as stated where the processing of an item throws after the notifier call:
  \<^verbatim>\<open>run\<close> executes the \<^verbatim>\<open>UPDATE\<close> and then writes the database file, and when that write
  throws, the catch block of the loop is reached with the flag set already. On a full disk
  the first item of the sweep of 2024-03-10 ends in the catch block, and the expense, which
  had \<^verbatim>\<open>email_sent = 0\<close>, has \<^verbatim>\<open>email_sent = 1\<close> after the sweep. (No successor is
  inserted for it, although it is recurring, and the second item is processed.)
\<close>

theorem write_failure_leaves_flag_set:
  "expenses store0 ! 0 = rent \<and> email_sent rent = 0 \<and> recurring rent = ''yes'' \<and>
   r_id (fst (snd (processReminders disk_full_env ''2024-03-10'' always_ok store0) ! 0)) =
     e_id rent \<and>
   snd (snd (snd (processReminders disk_full_env ''2024-03-10'' always_ok store0) ! 0)) =
     Update_threw ''ENOSPC: no space left on device, write'' \<and>
   expenses (fst (processReminders disk_full_env ''2024-03-10'' always_ok store0)) ! 0 =
     rent\<lparr>email_sent := 1\<rparr> \<and>
   map expense_name (drop 4
     (expenses (fst (processReminders disk_full_env ''2024-03-10'' always_ok store0)))) =
     [''Films'']"
  unfolding sweep_store0_disk_full
  by (simp add: store0_def rent_def join_row_def)

text \<open>
  Claim C5, amended. Let the body of the loop for the \<open>k\<close>-th item of the due set of a
  consistent store not end in its branch for a sent reminder: the notifier call fails or
  throws, or the write of the database file after the \<^verbatim>\<open>UPDATE\<close> throws.
  \<^item> When the notifier call fails or throws, the body of the loop leaves the store as it
    was, and after the sweep the expense has \<^verbatim>\<open>email_sent = 0\<close>.
  \<^item> Otherwise the notifier call succeeded and the write after the \<^verbatim>\<open>UPDATE\<close> threw; after
    the sweep the expense has \<^verbatim>\<open>email_sent = 1\<close> in the database that the queries read.
  \<^item> In both cases the expense is still there; the body of the loop inserts no row for the
    item; every row the sweep inserts comes from another item, a recurring one whose body
    ended in the branch for a sent reminder, and has its name, amount and category; there
    are at most as many inserted rows as there are such items.
  \<^item> The notifier is called for every item of the due set, and every later item whose
    notifier call succeeds has \<^verbatim>\<open>email_sent = 1\<close> after the sweep.
\<close>

theorem failed_item_is_left:
  assumes "wf_store s" and "k < length (pendingReminders today s)"
    and "snd (snd (snd (processReminders env today send s) ! k)) \<noteq> Sent"
  shows "((\<forall>res. send k (mail_of (pendingReminders today s ! k)) = Returns res \<longrightarrow> \<not> success res) \<longrightarrow>
            (\<forall>st. snd (process_item env k (send k (mail_of (pendingReminders today s ! k)))
                     (pendingReminders today s ! k) st) = st) \<and>
            (\<forall>e \<in> set (expenses (fst (processReminders env today send s))).
               e_id e = r_id (pendingReminders today s ! k) \<longrightarrow> email_sent e = 0)) \<and>
         ((\<exists>res. send k (mail_of (pendingReminders today s ! k)) = Returns res \<and> success res) \<longrightarrow>
            (\<exists>msg. writeFileSync_error env k UPDATE = Some msg) \<and>
            (\<forall>e \<in> set (expenses (fst (processReminders env today send s))).
               e_id e = r_id (pendingReminders today s ! k) \<longrightarrow> email_sent e = 1)) \<and>
         (\<exists>e \<in> set (expenses (fst (processReminders env today send s))).
            e_id e = r_id (pendingReminders today s ! k)) \<and>
         (\<forall>st. length (expenses (snd (process_item env k
                     (send k (mail_of (pendingReminders today s ! k)))
                     (pendingReminders today s ! k) st))) = length (expenses st)) \<and>
         length (expenses (fst (processReminders env today send s))) \<le>
           length (expenses s) +
           length (filter (\<lambda>x. snd (snd x) = Sent \<and> r_recurring (fst x) = ''yes'')
                     (snd (processReminders env today send s))) \<and>
         (\<forall>e' \<in> set (drop (length (expenses s))
                       (expenses (fst (processReminders env today send s)))).
            \<exists>j < length (pendingReminders today s).
              j \<noteq> k \<and> snd (snd (snd (processReminders env today send s) ! j)) = Sent \<and>
              r_recurring (pendingReminders today s ! j) = ''yes'' \<and>
              expense_name e' = r_expense_name (pendingReminders today s ! j) \<and>
              amount e' = r_amount (pendingReminders today s ! j) \<and>
              category e' = r_category (pendingReminders today s ! j)) \<and>
         map fst (snd (processReminders env today send s)) = pendingReminders today s \<and>
         (\<forall>j. k < j \<and> j < length (pendingReminders today s) \<and>
              (\<exists>res. send j (mail_of (pendingReminders today s ! j)) = Returns res \<and> success res) \<longrightarrow>
              (\<exists>e \<in> set (expenses (fst (processReminders env today send s))).
                 e_id e = r_id (pendingReminders today s ! j)) \<and>
              (\<forall>e \<in> set (expenses (fst (processReminders env today send s))).
                 e_id e = r_id (pendingReminders today s ! j) \<longrightarrow> email_sent e = 1))"
proof -
  let ?rs = "pendingReminders today s"
  let ?s' = "fst (processReminders env today send s)"
  let ?tr = "snd (processReminders env today send s)"
  let ?x = "send k (mail_of (?rs ! k))"
  have tr: "?tr = outcomes env send 0 ?rs" by (rule processReminders_trace)
  have notsent: "outcome_of env k ?x \<noteq> Sent"
    using assms(3) processReminders_nth [OF assms(2), of env send] by simp
  note flag = flag_of_item [OF assms(1), of _ today env send]
  have fails: "(\<forall>st. snd (process_item env k ?x (?rs ! k) st) = st) \<and>
      (\<forall>e \<in> set (expenses ?s'). e_id e = r_id (?rs ! k) \<longrightarrow> email_sent e = 0)"
    if f: "\<forall>res. ?x = Returns res \<longrightarrow> \<not> success res"
  proof -
    have unmarked: "\<not> marked (outcome_of env k ?x)"
      unfolding marked_outcome_of using f by blast
    then have "\<forall>st. snd (process_item env k ?x (?rs ! k) st) = st"
      by (simp add: process_item_store)
    moreover have "\<forall>e \<in> set (expenses ?s'). e_id e = r_id (?rs ! k) \<longrightarrow> email_sent e = 0"
      using flag(2) [OF assms(2)] unmarked by simp
    ultimately show ?thesis by blast
  qed
  have written: "(\<exists>msg. writeFileSync_error env k UPDATE = Some msg) \<and>
      (\<forall>e \<in> set (expenses ?s'). e_id e = r_id (?rs ! k) \<longrightarrow> email_sent e = 1)"
    if ok: "\<exists>res. ?x = Returns res \<and> success res"
  proof -
    have m: "marked (outcome_of env k ?x)"
      unfolding marked_outcome_of using ok .
    have "\<exists>msg. writeFileSync_error env k UPDATE = Some msg"
      using ok notsent by (auto simp: outcome_of_def split: option.splits)
    moreover have "\<forall>e \<in> set (expenses ?s'). e_id e = r_id (?rs ! k) \<longrightarrow> email_sent e = 1"
      using flag(2) [OF assms(2)] m by simp
    ultimately show ?thesis by blast
  qed
  have ex: "\<exists>e \<in> set (expenses ?s'). e_id e = r_id (?rs ! k)"
    using flag(1) [OF assms(2)] .
  have body: "\<forall>st. length (expenses (snd (process_item env k ?x (?rs ! k) st))) =
      length (expenses st)"
    using notsent by (simp add: process_item_store mark_sent_def)
  have len: "length (expenses ?s') \<le> length (expenses s) +
           length (filter (\<lambda>x. snd (snd x) = Sent \<and> r_recurring (fst x) = ''yes'') ?tr)"
  proof -
    have "length (expenses ?s') = length (expenses s) +
        length (new_rows env (\<lambda>i. get_user_id i s) (paid_default s) (last_rowid s) ?tr)"
      using processReminders_store [of env today send s] by (simp add: mark_all_def)
    then show ?thesis
      using new_rows_length [of env "\<lambda>i. get_user_id i s" "paid_default s" "last_rowid s" ?tr]
      by simp
  qed
  have new: "\<forall>e' \<in> set (drop (length (expenses s)) (expenses ?s')).
            \<exists>j < length ?rs. j \<noteq> k \<and> snd (snd (?tr ! j)) = Sent \<and>
              r_recurring (?rs ! j) = ''yes'' \<and>
              expense_name e' = r_expense_name (?rs ! j) \<and>
              amount e' = r_amount (?rs ! j) \<and>
              category e' = r_category (?rs ! j)"
  proof
    fix e' assume "e' \<in> set (drop (length (expenses s)) (expenses ?s'))"
    then have "e' \<in> set (new_rows env (\<lambda>i. get_user_id i s) (paid_default s) (last_rowid s) ?tr)"
      by (simp add: processReminders_new_rows)
    then obtain r mail m where r: "(r, mail, Sent) \<in> set ?tr" "r_recurring r = ''yes''"
        "successor_row env (\<lambda>i. get_user_id i s) (paid_default s) m r = Some e'"
      using new_rows_from_sent by blast
    obtain j where j: "j < length ?rs"
        "(r, mail, Sent) = (?rs ! j, mail_of (?rs ! j),
           outcome_of env (0 + j) (send (0 + j) (mail_of (?rs ! j))))"
      using r(1) unfolding tr outcomes_set by blast
    have rj: "?rs ! j = r" and oj: "outcome_of env j (send j (mail_of (?rs ! j))) = Sent"
      using j(2) by simp_all
    have "j \<noteq> k" using oj notsent by auto
    moreover have "snd (snd (?tr ! j)) = Sent"
      using processReminders_nth [OF j(1), of env send] oj by simp
    ultimately show "\<exists>j < length ?rs. j \<noteq> k \<and> snd (snd (?tr ! j)) = Sent \<and>
              r_recurring (?rs ! j) = ''yes'' \<and>
              expense_name e' = r_expense_name (?rs ! j) \<and>
              amount e' = r_amount (?rs ! j) \<and>
              category e' = r_category (?rs ! j)"
      using j(1) r(2) successor_row_fields [OF r(3)] rj by blast
  qed
  have calls: "map fst ?tr = ?rs" by (simp add: tr map_fst_outcomes)
  have later: "(\<exists>e \<in> set (expenses ?s'). e_id e = r_id (?rs ! j)) \<and>
               (\<forall>e \<in> set (expenses ?s'). e_id e = r_id (?rs ! j) \<longrightarrow> email_sent e = 1)"
    if j: "k < j \<and> j < length ?rs \<and> (\<exists>res. send j (mail_of (?rs ! j)) = Returns res \<and> success res)"
    for j
  proof -
    have lt: "j < length ?rs" using j by simp
    have m: "marked (outcome_of env j (send j (mail_of (?rs ! j))))"
      unfolding marked_outcome_of using j by blast
    show ?thesis using flag(1) [OF lt] flag(2) [OF lt] m by simp
  qed
  show ?thesis
    using fails written ex body len new calls later by blast
qed

theorem failed_item_is_left_witness:
  "wf_store store0 \<and> 0 < length (pendingReminders ''2024-03-10'' store0) \<and>
   fails_first 0 (mail_of (pendingReminders ''2024-03-10'' store0 ! 0)) =
     Returns \<lparr>success = False, messageId = None, error = Some ''daily quota exceeded''\<rparr> \<and>
   throws_first 0 (mail_of (pendingReminders ''2024-03-10'' store0 ! 0)) =
     Throws ''socket hang up'' \<and>
   writeFileSync_error disk_full_env 0 UPDATE = Some ''ENOSPC: no space left on device, write'' \<and>
   r_id (pendingReminders ''2024-03-10'' store0 ! 0) = 1 \<and>
   r_id (pendingReminders ''2024-03-10'' store0 ! 1) = 4 \<and>
   e_id (expenses (fst (processReminders utc_env ''2024-03-10'' fails_first store0)) ! 0) = 1 \<and>
   email_sent (expenses (fst (processReminders utc_env ''2024-03-10'' fails_first store0)) ! 0) = 0 \<and>
   e_id (expenses (fst (processReminders utc_env ''2024-03-10'' throws_first store0)) ! 0) = 1 \<and>
   email_sent (expenses (fst (processReminders utc_env ''2024-03-10'' throws_first store0)) ! 0) = 0 \<and>
   e_id (expenses (fst (processReminders disk_full_env ''2024-03-10'' always_ok store0)) ! 0) = 1 \<and>
   email_sent (expenses (fst (processReminders disk_full_env ''2024-03-10'' always_ok store0)) ! 0) = 1 \<and>
   e_id (expenses (fst (processReminders utc_env ''2024-03-10'' fails_first store0)) ! 3) = 4 \<and>
   email_sent (expenses (fst (processReminders utc_env ''2024-03-10'' fails_first store0)) ! 3) = 1 \<and>
   map fst (snd (processReminders utc_env ''2024-03-10'' fails_first store0)) =
     pendingReminders ''2024-03-10'' store0 \<and>
   map expense_name (drop (length (expenses store0))
      (expenses (fst (processReminders utc_env ''2024-03-10'' fails_first store0)))) = [''Films'']"
proof -
  let ?rs = "pendingReminders ''2024-03-10'' store0"
  let ?sf = "fst (processReminders utc_env ''2024-03-10'' fails_first store0)"
  let ?st = "fst (processReminders utc_env ''2024-03-10'' throws_first store0)"
  let ?sd = "fst (processReminders disk_full_env ''2024-03-10'' always_ok store0)"
  have len: "0 < length ?rs" "1 < length ?rs" unfolding pendingReminders_store0_10 by simp_all
  have f0: "fails_first 0 (mail_of (?rs ! 0)) =
     Returns \<lparr>success = False, messageId = None, error = Some ''daily quota exceeded''\<rparr>"
    by (simp add: fails_first_def)
  have t0: "throws_first 0 (mail_of (?rs ! 0)) = Throws ''socket hang up''"
    by (simp add: throws_first_def)
  have d0: "writeFileSync_error disk_full_env 0 UPDATE =
      Some ''ENOSPC: no space left on device, write''"
    by (simp add: disk_full_env_def)
  have f1: "\<exists>res. fails_first 1 (mail_of (?rs ! 1)) = Returns res \<and> success res"
    by (simp add: fails_first_def)
  have a0: "\<exists>res. always_ok 0 (mail_of (?rs ! 0)) = Returns res \<and> success res"
    by (simp add: always_ok_def)
  have ids: "r_id (?rs ! 0) = 1" "r_id (?rs ! 1) = 4"
    unfolding pendingReminders_store0_10 by (simp_all add: join_row_def rent_def films_def)
  have hf: "\<forall>res. fails_first 0 (mail_of (?rs ! 0)) = Returns res \<longrightarrow> \<not> success res"
    unfolding f0 by auto
  have ht: "\<forall>res. throws_first 0 (mail_of (?rs ! 0)) = Returns res \<longrightarrow> \<not> success res"
    unfolding t0 by simp
  have nf: "snd (snd (snd (processReminders utc_env ''2024-03-10'' fails_first store0) ! 0)) \<noteq> Sent"
    unfolding sweep_store0_fails_first by simp
  have nt: "snd (snd (snd (processReminders utc_env ''2024-03-10'' throws_first store0) ! 0)) \<noteq> Sent"
    unfolding sweep_store0_throws_first by simp
  have nd: "snd (snd (snd (processReminders disk_full_env ''2024-03-10'' always_ok store0) ! 0)) \<noteq> Sent"
    unfolding sweep_store0_disk_full by simp
  note F = failed_item_is_left [where s = store0 and k = 0 and today = "''2024-03-10''"
      and send = fails_first and env = utc_env, OF wf_store0 len(1) nf]
  note T = failed_item_is_left [where s = store0 and k = 0 and today = "''2024-03-10''"
      and send = throws_first and env = utc_env, OF wf_store0 len(1) nt]
  note D = failed_item_is_left [where s = store0 and k = 0 and today = "''2024-03-10''"
      and send = always_ok and env = disk_full_env, OF wf_store0 len(1) nd]
  have rows: "expenses ?sf ! 0 \<in> set (expenses ?sf)" "e_id (expenses ?sf ! 0) = 1"
      "expenses ?sf ! 3 \<in> set (expenses ?sf)" "e_id (expenses ?sf ! 3) = 4"
    unfolding sweep_store0_fails_first by (simp_all add: rent_def films_def)
  have rows_t: "expenses ?st ! 0 \<in> set (expenses ?st)" "e_id (expenses ?st ! 0) = 1"
    unfolding sweep_store0_throws_first by (simp_all add: rent_def)
  have rows_d: "expenses ?sd ! 0 \<in> set (expenses ?sd)" "e_id (expenses ?sd ! 0) = 1"
    unfolding sweep_store0_disk_full by (simp_all add: rent_def)
  note a = F [THEN conjunct1, THEN mp, OF hf, THEN conjunct2, unfolded ids(1),
      THEN bspec, OF rows(1), THEN mp, OF rows(2)]
  note b = T [THEN conjunct1, THEN mp, OF ht, THEN conjunct2, unfolded ids(1),
      THEN bspec, OF rows_t(1), THEN mp, OF rows_t(2)]
  note w = D [THEN conjunct2, THEN conjunct1, THEN mp, OF a0, THEN conjunct2, unfolded ids(1),
      THEN bspec, OF rows_d(1), THEN mp, OF rows_d(2)]
  note F8 = F [THEN conjunct2, THEN conjunct2, THEN conjunct2, THEN conjunct2, THEN conjunct2,
      THEN conjunct2, THEN conjunct2, THEN spec, of 1]
  have h1: "0 < (1::nat) \<and> 1 < length ?rs \<and>
      (\<exists>res. fails_first 1 (mail_of (?rs ! 1)) = Returns res \<and> success res)"
    using len(2) f1 by simp
  note c = F8 [THEN mp, OF h1, THEN conjunct2, unfolded ids(2),
      THEN bspec, OF rows(3), THEN mp, OF rows(4)]
  note calls = F [THEN conjunct2, THEN conjunct2, THEN conjunct2, THEN conjunct2, THEN conjunct2,
      THEN conjunct2, THEN conjunct1]
  have d: "map expense_name (drop (length (expenses store0)) (expenses ?sf)) = [''Films'']"
    unfolding sweep_store0_fails_first by (simp add: store0_def)
  show ?thesis
    using wf_store0 len(1) f0 t0 d0 ids rows(2,4) rows_t(2) rows_d(2) a b w c calls d by blast
qed

section \<open>What a sweep changes\<close>

lemma item_of_expense:
  assumes "wf_store s" and "e \<in> set (expenses s)"
    and "k < length (pendingReminders today s)"
    and "r_id (pendingReminders today s ! k) = e_id e"
  shows "\<exists>u \<in> set (users s). pendingReminders today s ! k = join_row e u"
proof -
  have "pendingReminders today s ! k \<in> set (pendingReminders today s)"
    using assms(3) by simp
  then obtain e1 u where eu: "e1 \<in> set (expenses s)" "u \<in> set (users s)"
      "pendingReminders today s ! k = join_row e1 u"
    unfolding pendingReminders_set by blast
  have inj: "inj_on e_id (set (expenses s))"
    using assms(1) by (simp add: wf_store_def distinct_map)
  have "e_id e1 = e_id e" using eu(3) assms(4) by (simp add: join_row_def)
  then have "e1 = e" using inj eu(1) assms(2) by (auto dest: inj_onD)
  then show ?thesis using eu by blast
qed

lemma length_trace:
  "length (snd (processReminders env today send s)) = length (pendingReminders today s)"
  by (simp add: processReminders_trace length_outcomes)

lemma marked_call:
  assumes "i \<in> marked_ids (snd (processReminders env today send s))"
  shows "\<exists>k < length (snd (processReminders env today send s)).
           r_id (fst (snd (processReminders env today send s) ! k)) = i \<and>
           (\<exists>res. send k (fst (snd (snd (processReminders env today send s) ! k))) = Returns res \<and>
              success res)"
proof -
  let ?rs = "pendingReminders today s"
  obtain j where j: "j < length ?rs" "r_id (?rs ! j) = i"
      "marked (outcome_of env (0 + j) (send (0 + j) (mail_of (?rs ! j))))"
    using assms unfolding processReminders_trace using marked_item_index by blast
  have "\<exists>res. send j (mail_of (?rs ! j)) = Returns res \<and> success res"
    using j(3) unfolding marked_outcome_of by simp
  then have "r_id (fst (snd (processReminders env today send s) ! j)) = i \<and>
      (\<exists>res. send j (fst (snd (snd (processReminders env today send s) ! j))) = Returns res \<and>
         success res)"
    using processReminders_nth [OF j(1), of env send] j(2) by simp
  then show ?thesis using j(1) unfolding length_trace by blast
qed

text \<open>\<^verbatim>\<open>new Date\<close> reads every string of the form \<^verbatim>\<open>YYYY-MM-DD\<close> with a month from 01 to 12
  and a day from 01 to 31, in every environment.\<close>

lemma new_Date_date_only:
  assumes "length s = 10" and "s ! 4 = CHR ''-''" and "s ! 7 = CHR ''-''"
    and "number_of (take 4 s) = Some y" and "number_of (take 2 (drop 5 s)) = Some m"
    and "number_of (drop 8 s) = Some d"
    and "1 \<le> m" and "m \<le> 12" and "1 \<le> d" and "d \<le> 31"
  shows "new_Date env (Text s) = Some (MakeDay (int y) (m - 1) d, 0)"
  using assms by (simp add: new_Date_def parse_date_only_def)

text \<open>
  Claim C8. A sweep over a consistent store keeps the users and every row of the expense
  table in its place, changing at most \<^verbatim>\<open>email_sent\<close>, and that only to 1 and only for an
  expense for which the notifier was called and answered with success; \<^verbatim>\<open>paid\<close>,
  \<^verbatim>\<open>paid_at\<close>, \<^verbatim>\<open>due_date\<close>, \<^verbatim>\<open>reminder_date\<close> and all other columns stay. For every
  recurring expense whose item ended in the branch for a sent reminder and whose two dates
  \<^verbatim>\<open>new Date\<close> can read, the inserted rows contain one with the same owner, name, amount
  and category, with \<^verbatim>\<open>recurring = 'yes'\<close> and \<^verbatim>\<open>email_sent = 0\<close>; and every inserted row
  is such a successor of a recurring expense whose item ended in that branch. This holds in
  every environment (any time zone, and also when a write of the database file fails).
\<close>

theorem successor_and_frame:
  assumes "wf_store s"
  shows "users (fst (processReminders env today send s)) = users s \<and>
         length (expenses s) \<le> length (expenses (fst (processReminders env today send s))) \<and>
         (\<forall>j < length (expenses s).
            expenses (fst (processReminders env today send s)) ! j =
              (expenses s ! j)\<lparr>email_sent :=
                 email_sent (expenses (fst (processReminders env today send s)) ! j)\<rparr> \<and>
            (email_sent (expenses (fst (processReminders env today send s)) ! j) \<noteq>
               email_sent (expenses s ! j) \<longrightarrow>
               email_sent (expenses (fst (processReminders env today send s)) ! j) = 1 \<and>
               (\<exists>k < length (snd (processReminders env today send s)).
                  r_id (fst (snd (processReminders env today send s) ! k)) =
                    e_id (expenses s ! j) \<and>
                  (\<exists>res. send k (fst (snd (snd (processReminders env today send s) ! k))) =
                            Returns res \<and> success res)))) \<and>
         (\<forall>e \<in> set (expenses s). \<forall>k < length (snd (processReminders env today send s)).
            r_id (fst (snd (processReminders env today send s) ! k)) = e_id e \<and>
            snd (snd (snd (processReminders env today send s) ! k)) = Sent \<and>
            recurring e = ''yes'' \<and>
            new_Date env (due_date e) \<noteq> None \<and> new_Date env (reminder_date e) \<noteq> None \<longrightarrow>
            (\<exists>e' \<in> set (drop (length (expenses s))
                          (expenses (fst (processReminders env today send s)))).
               user_id e' = user_id e \<and> expense_name e' = expense_name e \<and>
               amount e' = amount e \<and> category e' = category e \<and>
               recurring e' = ''yes'' \<and> email_sent e' = 0)) \<and>
         (\<forall>e' \<in> set (drop (length (expenses s))
                       (expenses (fst (processReminders env today send s)))).
            recurring e' = ''yes'' \<and> email_sent e' = 0 \<and>
            (\<exists>e \<in> set (expenses s). \<exists>k < length (snd (processReminders env today send s)).
               r_id (fst (snd (processReminders env today send s) ! k)) = e_id e \<and>
               snd (snd (snd (processReminders env today send s) ! k)) = Sent \<and>
               recurring e = ''yes'' \<and>
               user_id e' = user_id e \<and> expense_name e' = expense_name e \<and>
               amount e' = amount e \<and> category e' = category e))"
proof -
  let ?rs = "pendingReminders today s"
  let ?s' = "fst (processReminders env today send s)"
  let ?tr = "snd (processReminders env today send s)"
  let ?f = "\<lambda>i. get_user_id i s"
  let ?new = "new_rows env ?f (paid_default s) (last_rowid s) ?tr"
  have us: "users ?s' = users s"
    using processReminders_store [of env today send s] by blast
  have len: "length (expenses s) \<le> length (expenses ?s')"
    using processReminders_store [of env today send s] by (simp add: mark_all_def)
  have frame: "expenses ?s' ! j = (expenses s ! j)\<lparr>email_sent := email_sent (expenses ?s' ! j)\<rparr> \<and>
            (email_sent (expenses ?s' ! j) \<noteq> email_sent (expenses s ! j) \<longrightarrow>
               email_sent (expenses ?s' ! j) = 1 \<and>
               (\<exists>k < length ?tr. r_id (fst (?tr ! k)) = e_id (expenses s ! j) \<and>
                  (\<exists>res. send k (fst (snd (?tr ! k))) = Returns res \<and> success res)))"
    if "j < length (expenses s)" for j
  proof (cases "e_id (expenses s ! j) \<in> marked_ids ?tr")
    case True
    then show ?thesis
      using marked_call [OF True] by (simp add: processReminders_old_rows [OF that])
  next
    case False
    then show ?thesis by (simp add: processReminders_old_rows [OF that])
  qed
  have succ: "\<exists>e' \<in> set (drop (length (expenses s)) (expenses ?s')).
               user_id e' = user_id e \<and> expense_name e' = expense_name e \<and>
               amount e' = amount e \<and> category e' = category e \<and>
               recurring e' = ''yes'' \<and> email_sent e' = 0"
    if e: "e \<in> set (expenses s)" and k: "k < length ?tr"
      and r: "r_id (fst (?tr ! k)) = e_id e" "snd (snd (?tr ! k)) = Sent"
      and rec: "recurring e = ''yes''"
      and v: "new_Date env (due_date e) \<noteq> None" "new_Date env (reminder_date e) \<noteq> None"
    for e k
  proof -
    have k': "k < length ?rs" using k unfolding length_trace .
    note nth = processReminders_nth [OF k', of env send]
    have id: "r_id (?rs ! k) = e_id e" using r(1) nth by simp
    obtain u where u: "?rs ! k = join_row e u"
      using item_of_expense [OF assms e k' id] by blast
    have "?tr ! k = (?rs ! k, mail_of (?rs ! k), Sent)" using nth r(2) by simp
    then have mem: "(?rs ! k, mail_of (?rs ! k), Sent) \<in> set ?tr"
      using nth_mem [OF k] by simp
    have owner: "?f (r_id (?rs ! k)) = Some (user_id e)"
      using get_user_id_of_row [of s e] assms e id by (simp add: wf_store_def)
    obtain nd nr where n: "next_month_date env (due_date e) = Some nd"
        "next_month_date env (reminder_date e) = Some nr"
      using v next_month_date_None [of env] by (metis not_None_eq)
    obtain e0 where e0: "successor_row env ?f (paid_default s) 0 (?rs ! k) = Some e0"
      using owner n u by (simp add: successor_row_def join_row_def)
    have rr: "r_recurring (?rs ! k) = ''yes''" using u rec by (simp add: join_row_def)
    obtain e' where e': "e' \<in> set ?new" "e' = e0\<lparr>e_id := e_id e'\<rparr>"
      using new_rows_member [OF mem rr e0, of "last_rowid s"] by blast
    have fields: "user_id e0 = user_id e \<and> expense_name e0 = expense_name e \<and>
               amount e0 = amount e \<and> category e0 = category e \<and>
               recurring e0 = ''yes'' \<and> email_sent e0 = 0"
      using successor_row_fields [OF e0] owner u by (simp add: join_row_def)
    have same: "user_id e' = user_id e0" "expense_name e' = expense_name e0"
        "amount e' = amount e0" "category e' = category e0" "recurring e' = recurring e0"
        "email_sent e' = email_sent e0"
      by (subst e'(2), simp)+
    have "e' \<in> set (drop (length (expenses s)) (expenses ?s'))"
      using e'(1) by (simp add: processReminders_new_rows)
    then show ?thesis using fields same by auto
  qed
  have orig: "recurring e' = ''yes'' \<and> email_sent e' = 0 \<and>
            (\<exists>e \<in> set (expenses s). \<exists>k < length ?tr.
               r_id (fst (?tr ! k)) = e_id e \<and> snd (snd (?tr ! k)) = Sent \<and>
               recurring e = ''yes'' \<and>
               user_id e' = user_id e \<and> expense_name e' = expense_name e \<and>
               amount e' = amount e \<and> category e' = category e)"
    if "e' \<in> set (drop (length (expenses s)) (expenses ?s'))" for e'
  proof -
    have "e' \<in> set ?new" using that by (simp add: processReminders_new_rows)
    then obtain r mail m where r: "(r, mail, Sent) \<in> set ?tr" "r_recurring r = ''yes''"
        "successor_row env ?f (paid_default s) m r = Some e'"
      using new_rows_from_sent by blast
    obtain k where k: "k < length ?tr" "?tr ! k = (r, mail, Sent)"
      using r(1) unfolding in_set_conv_nth by blast
    have k': "k < length ?rs" using k(1) unfolding length_trace .
    have rk: "?rs ! k = r" using processReminders_nth [OF k', of env send] k(2) by simp
    note f = successor_row_fields [OF r(3)]
    obtain e where e: "e \<in> set (expenses s)" "e_id e = r_id r"
      using f get_user_id_Some [of "r_id r" s "user_id e'"] by blast
    obtain u where u: "r = join_row e u"
      using item_of_expense [OF assms e(1) k'] e(2) rk by auto
    have "?f (r_id r) = Some (user_id e)"
      using get_user_id_of_row [of s e] assms e by (simp add: wf_store_def)
    then have uid: "user_id e' = user_id e" using f by simp
    have rest: "recurring e = ''yes''" "expense_name e' = expense_name e"
        "amount e' = amount e" "category e' = category e"
      using f r(2) u by (simp_all add: join_row_def)
    have "r_id (fst (?tr ! k)) = e_id e \<and> snd (snd (?tr ! k)) = Sent \<and>
               recurring e = ''yes'' \<and>
               user_id e' = user_id e \<and> expense_name e' = expense_name e \<and>
               amount e' = amount e \<and> category e' = category e"
      using k(2) e(2) uid rest by simp
    then have "\<exists>e \<in> set (expenses s). \<exists>k < length ?tr.
               r_id (fst (?tr ! k)) = e_id e \<and> snd (snd (?tr ! k)) = Sent \<and>
               recurring e = ''yes'' \<and>
               user_id e' = user_id e \<and> expense_name e' = expense_name e \<and>
               amount e' = amount e \<and> category e' = category e"
      using e(1) k(1) by blast
    then show ?thesis using f by blast
  qed
  show ?thesis using us len frame succ orig by blast
qed

lemma sweep_store0_always_ok:
  "processReminders utc_env ''2024-03-10'' always_ok store0 =
     (store0\<lparr>expenses := [rent\<lparr>email_sent := 1\<rparr>, gym, loan, films\<lparr>email_sent := 1\<rparr>,
        \<lparr>e_id = 5, user_id = 1, expense_name = ''Rent'', amount = 1000,
         category = ''Bills'', due_date = Text ''2024-04-15'',
         reminder_date = Text ''2024-04-10'',
         recurring = ''yes'', email_sent = 0, paid = Some 0, paid_at = None\<rparr>,
        \<lparr>e_id = 6, user_id = 2, expense_name = ''Films'', amount = 15,
         category = ''Entertainment'', due_date = Text ''2024-04-20'',
         reminder_date = Text ''2024-04-01'',
         recurring = ''yes'', email_sent = 0, paid = Some 0, paid_at = None\<rparr>], seq := 6\<rparr>,
      [(join_row rent asha, mail_of (join_row rent asha), Sent),
       (join_row films ben, mail_of (join_row films ben), Sent)])"
  unfolding processReminders_def pendingReminders_store0_10
  by (simp add: process_item_def always_ok_def mark_sent_def run_def
      createNextRecurringExpense_def get_user_id_def insert_expense_def last_rowid_def
      max_rowid_def join_row_def mail_of_def example_defs utc_env_def date_defs)

theorem successor_and_frame_witness:
  "wf_store store0 \<and> rent \<in> set (expenses store0) \<and>
   0 < length (snd (processReminders utc_env ''2024-03-10'' always_ok store0)) \<and>
   r_id (fst (snd (processReminders utc_env ''2024-03-10'' always_ok store0) ! 0)) = e_id rent \<and>
   snd (snd (snd (processReminders utc_env ''2024-03-10'' always_ok store0) ! 0)) = Sent \<and>
   recurring rent = ''yes'' \<and>
   new_Date utc_env (due_date rent) = Some ((2024, 2, 15), 0) \<and>
   new_Date utc_env (reminder_date rent) = Some ((2024, 2, 10), 0) \<and>
   (\<exists>e' \<in> set (drop (length (expenses store0))
               (expenses (fst (processReminders utc_env ''2024-03-10'' always_ok store0)))).
      user_id e' = 1 \<and> expense_name e' = ''Rent'' \<and> amount e' = 1000 \<and>
      category e' = ''Bills'' \<and> recurring e' = ''yes'' \<and> email_sent e' = 0) \<and>
   expenses (fst (processReminders utc_env ''2024-03-10'' always_ok store0)) ! 0 =
     rent\<lparr>email_sent := 1\<rparr> \<and>
   expenses (fst (processReminders utc_env ''2024-03-10'' always_ok store0)) ! 1 = gym"
proof -
  let ?s' = "fst (processReminders utc_env ''2024-03-10'' always_ok store0)"
  let ?tr = "snd (processReminders utc_env ''2024-03-10'' always_ok store0)"
  have 1: "rent \<in> set (expenses store0)" by (simp add: store0_def)
  have 2: "0 < length ?tr" "r_id (fst (?tr ! 0)) = e_id rent" "snd (snd (?tr ! 0)) = Sent"
    unfolding sweep_store0_always_ok by (simp_all add: join_row_def)
  have 4: "recurring rent = ''yes''" by (simp add: rent_def)
  have 5: "new_Date utc_env (due_date rent) = Some ((2024, 2, 15), 0)"
    "new_Date utc_env (reminder_date rent) = Some ((2024, 2, 10), 0)"
    by (simp_all add: rent_def date_defs)
  have 6: "new_Date utc_env (due_date rent) \<noteq> None" "new_Date utc_env (reminder_date rent) \<noteq> None"
    unfolding 5 by simp_all
  note S = successor_and_frame [where s = store0 and today = "''2024-03-10''" and send = always_ok
      and env = utc_env,
      OF wf_store0, THEN conjunct2, THEN conjunct2, THEN conjunct2, THEN conjunct1,
      THEN bspec, OF 1, THEN spec, of 0, THEN mp, OF 2(1), THEN mp,
      OF conjI [OF 2(2) conjI [OF 2(3) conjI [OF 4 conjI [OF 6]]]]]
  have succ: "\<exists>e' \<in> set (drop (length (expenses store0)) (expenses ?s')).
      user_id e' = 1 \<and> expense_name e' = ''Rent'' \<and> amount e' = 1000 \<and>
      category e' = ''Bills'' \<and> recurring e' = ''yes'' \<and> email_sent e' = 0"
    using S by (auto simp: rent_def)
  have old: "expenses ?s' ! 0 = rent\<lparr>email_sent := 1\<rparr>" "expenses ?s' ! 1 = gym"
    unfolding sweep_store0_always_ok by simp_all
  show ?thesis using wf_store0 1 2 4 5 succ old by blast
qed

text \<open>
  A stored date whose day its month does not have is among the dates \<^verbatim>\<open>new Date\<close> reads:
  a sweep over a recurring expense due on \<^verbatim>\<open>2024-02-30\<close> inserts a successor (due on
  2024-04-01).
\<close>

lemma sweep_carried_day:
  "expenses (fst (processReminders utc_env ''2024-02-20'' always_ok
     (jan_store\<lparr>expenses := [rent_jan\<lparr>due_date := Text ''2024-02-30'',
        reminder_date := Text ''2024-02-20''\<rparr>]\<rparr>))) =
     [rent_jan\<lparr>due_date := Text ''2024-02-30'', reminder_date := Text ''2024-02-20'',
        email_sent := 1\<rparr>,
      rent_jan\<lparr>e_id := 2, due_date := Text ''2024-04-01'',
        reminder_date := Text ''2024-03-20''\<rparr>]"
  by (simp add: processReminders_def pendingReminders_def owners_def less_eq_sql_value_def
      process_item_def always_ok_def mark_sent_def run_def
      createNextRecurringExpense_def get_user_id_def insert_expense_def last_rowid_def
      max_rowid_def join_row_def mail_of_def jan_store_def rent_jan_def asha_def
      utc_env_def date_defs)

section \<open>The email service as the notifier of a sweep\<close>

text \<open>With the repository's email service the notifier call of an item never throws; an
  item can still end in the catch block, when the write of the database file throws.\<close>

lemma email_service_never_throws: "email_service resend k mail \<noteq> Throws msg"
  by (auto simp: email_service_def sendReminderEmail_def try_catch_def
      split: option.splits js_result.splits)

lemma email_service_no_error:
  "(r, mail, Send_threw msg) \<notin> set (snd (processReminders env today (email_service resend) s))"
proof
  assume "(r, mail, Send_threw msg)
      \<in> set (snd (processReminders env today (email_service resend) s))"
  then obtain j where "Send_threw msg = outcome_of env (0 + j) (email_service resend (0 + j)
      (mail_of (pendingReminders today s ! j)))"
    by (auto simp: processReminders_def process_loop_trace outcomes_set)
  then show False
    using email_service_never_throws [of resend j "mail_of (pendingReminders today s ! j)"]
    by (auto simp: outcome_of_def split: js_result.splits if_splits option.splits)
qed

end
